theory Spec2Isabelle
  imports Complex_Main "HOL-Library.Log_Nat" "HOL-Library.Signed_Division" "HOL-Library.Word"
begin

section \<open>Constants of \<open>m_camera.cpp\<close>\<close>

text \<open>
  The macros \<open>PERIOD\<close> and \<open>OFFSET\<close> and the locals \<open>drift_period\<close> and
  \<open>sync_period\<close> of \<open>main\<close>, which are assigned once and never written again.
\<close>

definition PERIOD :: int where
  "PERIOD = 1"

definition OFFSET :: int where
  "OFFSET = 2"

definition drift_period :: int where
  "drift_period = 61"

definition sync_period :: int where
  "sync_period = 301"

definition BILLION :: int where
  \<comment> \<open>Modelled from the spec: the macro \<open>BILLION\<close> comes from \<open>synchronization.h\<close>, which is
      not among the sources. The spec gives the nominal server second as 1_000_000_000 ns, and
      \<open>t_nsec % BILLION\<close> in \<open>resetTimer\<close> makes it an integer constant.\<close>
  "BILLION = 1000000000"

section \<open>Machine integers\<close>

text \<open>
  \<open>long long\<close> is 64 bits wide and \<open>int\<close> 32 bits. Signed overflow has no defined result in
  C++, so the model computes on \<open>int\<close> and checks every intermediate result: an operation
  that leaves the range ends the run as undefined behaviour.
\<close>

definition LLONG_MAX :: int where
  "LLONG_MAX = 2 ^ 63 - 1"

definition LLONG_MIN :: int where
  "LLONG_MIN = - (2 ^ 63)"

definition INT_MAX :: int where
  "INT_MAX = 2 ^ 31 - 1"

definition in_long_long :: "int \<Rightarrow> bool" where
  "in_long_long x \<longleftrightarrow> LLONG_MIN \<le> x \<and> x \<le> LLONG_MAX"

definition int_of_long_long :: "int \<Rightarrow> int" where
  \<comment> \<open>the cast \<open>(int) x\<close> of a \<open>long long\<close>: reduction modulo \<open>2 ^ 32\<close> into the signed range\<close>
  "int_of_long_long x = (x + 2 ^ 31) mod 2 ^ 32 - 2 ^ 31"

section \<open>Double precision\<close>

text \<open>
  A finite \<open>double\<close> is modelled by the rational number it stands for. Every operation computes
  the exact result and rounds it to the nearest binary64 value, ties to the even significand
  (53 bits, subnormals below \<open>2 ^ -1022\<close>). A result that is not finite (an infinity or a NaN)
  is \<open>None\<close>. The sign of a zero is not kept: the only divisor in the program is the conversion of
  an integer, which is never a negative zero.
\<close>

definition round_half_even :: "rat \<Rightarrow> int" where
  "round_half_even y =
     (let f = \<lfloor>y\<rfloor>; r = y - of_int f
      in if r < 1 / 2 then f
         else if 1 / 2 < r then f + 1
         else if even f then f else f + 1)"

definition ilog2 :: "rat \<Rightarrow> int" where
  \<comment> \<open>the binary exponent of a positive rational: \<open>2 powi ilog2 x \<le> x < 2 powi (ilog2 x + 1)\<close>\<close>
  "ilog2 x =
     (if 1 \<le> x then bitlen \<lfloor>x\<rfloor> - 1
      else let k = bitlen \<lfloor>1 / x\<rfloor> - 1
           in if x * 2 ^ nat k = 1 then - k else - k - 1)"

definition round_double :: "rat \<Rightarrow> rat" where
  "round_double x =
     (if x = 0 then 0
      else let e = max (ilog2 \<bar>x\<bar> - 52) (- 1074)
           in of_int (round_half_even (x / 2 powi e)) * 2 powi e)"

definition finite_double :: "rat \<Rightarrow> rat option" where
  \<comment> \<open>a rounded result of magnitude \<open>2 ^ 1024\<close> or more is an infinity\<close>
  "finite_double x = (if x = 0 \<or> ilog2 \<bar>x\<bar> < 1024 then Some x else None)"

definition double_of_long_long :: "int \<Rightarrow> rat" where
  "double_of_long_long n = round_double (of_int n)"

definition fdiv :: "rat \<Rightarrow> rat \<Rightarrow> rat option" where
  "fdiv a b = (if b = 0 then None else finite_double (round_double (a / b)))"

definition fmul :: "rat \<Rightarrow> rat \<Rightarrow> rat option" where
  "fmul a b = finite_double (round_double (a * b))"

definition truncate_double :: "rat \<Rightarrow> int" where
  "truncate_double x = (if 0 \<le> x then \<lfloor>x\<rfloor> else \<lceil>x\<rceil>)"

definition long_long_of_double :: "rat option \<Rightarrow> int option" where
  \<comment> \<open>the cast \<open>(long long) x\<close>: the fraction is dropped; a value that is not finite or whose
      integer part does not fit has no defined result\<close>
  "long_long_of_double x =
     (case x of
        None \<Rightarrow> None
      | Some v \<Rightarrow> if in_long_long (truncate_double v) then Some (truncate_double v) else None)"

section \<open>The period estimate\<close>

text \<open>
  Lines 318 and 319 of \<open>main\<close>:
  \<^verbatim>\<open>double server_period = double((T_skew_now - T_skew_prev)/drift_period + BILLION);\<close>
  \<^verbatim>\<open>server_sec = (long long) (double(BILLION)*(double(BILLION) / server_period));\<close>
  The quotient by \<open>drift_period\<close> is a \<open>long long\<close> division, which truncates towards zero,
  and only its sum with \<open>BILLION\<close> is converted to \<open>double\<close>. \<open>None\<close> is undefined behaviour.
\<close>

definition drift_server_sec :: "int \<Rightarrow> int \<Rightarrow> int option" where
  "drift_server_sec skew_now skew_prev =
     (let d = skew_now - skew_prev;
          p = d sdiv drift_period + BILLION
      in if \<not> (in_long_long d \<and> in_long_long p) then None
         else let server_period = double_of_long_long p
              in long_long_of_double
                   (case fdiv (double_of_long_long BILLION) server_period of
                      None \<Rightarrow> None
                    | Some r \<Rightarrow> fmul (double_of_long_long BILLION) r))"

definition spec_server_second :: "int \<Rightarrow> int" where
  \<comment> \<open>the formula as the specification words it, for the skew delta \<open>d\<close>:
      \<open>round (1e18 / (d / drift_period + 1e9))\<close> with a real quotient\<close>
  "spec_server_second d = round (10 ^ 18 / (of_int d / of_int drift_period + 10 ^ 9 :: rat))"

section \<open>Time conversion\<close>

record timespec =
  tv_sec :: int
  tv_nsec :: int

record itimerspec =
  it_interval :: timespec
  it_value :: timespec

record timeinfo =
  T_skew_n :: int
  T_start_n :: int

definition as_timespec :: "int \<Rightarrow> timespec" where
  \<comment> \<open>Modelled from the spec: \<open>as_timespec\<close> is declared in \<open>synchronization.h\<close>, which is not
      among the sources. The spec describes an exact split of a nanosecond count into seconds
      and nanoseconds, the nanoseconds in \<open>[0, 1_000_000_000)\<close>, for counts that are not
      negative; no result below rests on its value for a negative count.\<close>
  "as_timespec ns = \<lparr>tv_sec = ns div BILLION, tv_nsec = ns mod BILLION\<rparr>"

definition as_nsec :: "timespec \<Rightarrow> int" where
  \<comment> \<open>Modelled from the spec: \<open>as_nsec\<close> is declared in \<open>synchronization.h\<close> as well; the spec
      describes it as the inverse of the split.\<close>
  "as_nsec ts = tv_sec ts * BILLION + tv_nsec ts"

definition one_shot :: timespec where
  "one_shot = \<lparr>tv_sec = 0, tv_nsec = 0\<rparr>"

section \<open>Program state\<close>

text \<open>
  The three globals of type \<open>timer_t\<close>. A \<open>timer_id\<close> is the address of one of them: it is what
  \<open>makeTimer\<close> and \<open>resetTimer\<close> receive, and what \<open>makeTimer\<close> stores in
  \<open>sigev_value.sival_ptr\<close>, so that a signal carries the address of the global through which
  its timer was created.
\<close>

datatype timer_id = cameraTimerID | syncTimerID | driftTimerID

text \<open>
  The globals of the file, the locals of \<open>main\<close> that live across loop iterations, and what
  the program's calls leave in its collaborators: the setting each timer holds (\<open>None\<close> while
  the timer is not armed), the name of the opened log file and the records logged.
  \<open>kernel_id st v\<close> is the value of the global \<open>v\<close>: 0 at the start, as every global without
  an initialiser, and from a successful \<open>timer_create\<close> on the id the kernel has chosen.
  \<open>timers st v\<close> is the setting of the timer created through \<open>v\<close>. The locals that \<open>main\<close>
  declares without a value start at 0 here; each is assigned before it is read.
\<close>

record state =
  count :: int
  fSync :: "8 word"
  fDrift :: "8 word"
  t_rtc :: string
  now :: timespec
  T_skew_prev :: int
  T_skew_now :: int
  T_trig_n :: int
  T_sync_n :: int
  T_drift_n :: int
  status :: int
  server_sec :: int
  TI :: timeinfo
  timers :: "timer_id \<Rightarrow> itimerspec option"
  kernel_id :: "timer_id \<Rightarrow> nat"
  log_name :: "string option"
  logged :: "(int \<times> string) list"

datatype halt = exit int state | undefined_behaviour

definition initial_state :: state where
  "initial_state =
     \<lparr>count = 0, fSync = 0, fDrift = 0, t_rtc = [], now = \<lparr>tv_sec = 0, tv_nsec = 0\<rparr>,
      T_skew_prev = 0, T_skew_now = 0, T_trig_n = 0, T_sync_n = 0, T_drift_n = 0, status = 0,
      server_sec = BILLION, TI = \<lparr>T_skew_n = 0, T_start_n = 0\<rparr>,
      timers = (\<lambda>_. None), kernel_id = (\<lambda>_. 0), log_name = None, logged = []\<rparr>"

section \<open>Replies of the collaborators\<close>

text \<open>
  What the program cannot decide is an input of the model. \<open>synchronize\<close> and \<open>get_skew\<close>
  answer with the contents of \<open>TI\<close> after the call, or \<open>None\<close> when they return -1;
  \<open>peripheral->init()\<close> answers with its return value; each system call answers whether it
  succeeded, and \<open>timer_create\<close> also with the id it stores in \<open>*timerID\<close>. The answer of a
  \<open>timer_settime\<close> says whether the timer created through the given global has been set.
\<close>

record syscalls =
  sigaction_ok :: bool
  timer_create_ok :: bool
  timer_settime_ok :: bool
  new_timer_id :: nat

record startup_env =
  init_reply :: int
  initial_sync_reply :: "timeinfo option"
  trigger_sys :: syscalls
  drift_sys :: syscalls
  sync_sys :: syscalls

record loop_env =
  synchronize_reply :: "timeinfo option"
  sync_camera_ok :: bool
  sync_drift_ok :: bool
  get_skew_reply :: "timeinfo option"
  drift_camera_ok :: bool
  drift_sync_ok :: bool

section \<open>The functions of \<open>m_camera.cpp\<close>\<close>

definition triggerCamera :: "timespec \<Rightarrow> state \<Rightarrow> halt + state" where
  \<comment> \<open>\<open>clock\<close> is the reading of \<open>CLOCK_MONOTONIC\<close>; \<open>triggerOn\<close> and \<open>triggerOff\<close> touch no
      variable of the program\<close>
  "triggerCamera clock st =
     (let st1 = st\<lparr>now := clock\<rparr>;
          now_n = as_nsec (now st1);
          st2 = st1\<lparr>t_rtc := butlast ''abc''\<rparr>;
          st3 = st2\<lparr>logged := logged st2 @ [(now_n, t_rtc st2)]\<rparr>
      in if count st3 + 1 \<le> INT_MAX then Inr (st3\<lparr>count := count st3 + 1\<rparr>)
         else Inl undefined_behaviour)"

definition timer_handler :: "timer_id \<Rightarrow> timespec \<Rightarrow> state \<Rightarrow> halt + state" where
  \<comment> \<open>\<open>tidp\<close> is \<open>si->si_value.sival_ptr\<close>; the tests compare \<open>*tidp\<close> with the values of the
      globals, in the order of the source\<close>
  "timer_handler tidp clock st =
     (if kernel_id st tidp = kernel_id st cameraTimerID then triggerCamera clock st
      else if kernel_id st tidp = kernel_id st syncTimerID then Inr (st\<lparr>fSync := 1\<rparr>)
      else if kernel_id st tidp = kernel_id st driftTimerID then Inr (st\<lparr>fDrift := 1\<rparr>)
      else Inr st)"

definition setup_m :: "int \<Rightarrow> state \<Rightarrow> state" where
  "setup_m init st = (if init = - 1 then st else st\<lparr>log_name := Some ''changeme.csv''\<rparr>)"

definition makeTimer ::
  "syscalls \<Rightarrow> string \<Rightarrow> timer_id \<Rightarrow> timespec \<Rightarrow> int \<Rightarrow> int \<Rightarrow> state \<Rightarrow> int \<times> state" where
  "makeTimer sys name timerID T_start it_sec it_nsec st =
     (let tim_spec = \<lparr>it_interval = \<lparr>tv_sec = it_sec, tv_nsec = it_nsec\<rparr>, it_value = T_start\<rparr>
      in if \<not> sigaction_ok sys then (- 1, st)
         else if \<not> timer_create_ok sys then (- 1, st)
         else
           let st1 = st\<lparr>kernel_id := (kernel_id st)(timerID := new_timer_id sys)\<rparr>
           in if \<not> timer_settime_ok sys then (- 1, st1)
              else (0, st1\<lparr>timers := (timers st1)(timerID := Some tim_spec)\<rparr>))"

definition resetTimer :: "bool \<Rightarrow> timer_id \<Rightarrow> timespec \<Rightarrow> int \<Rightarrow> state \<Rightarrow> state" where
  \<comment> \<open>a failed \<open>timer_settime\<close> is reported with \<open>perror\<close> and changes nothing\<close>
  "resetTimer settime_ok timerID T_start t_nsec st =
     (let it_sec = int_of_long_long (t_nsec sdiv BILLION);
          it_nsec = int_of_long_long (t_nsec smod BILLION);
          tim_spec = \<lparr>it_interval = \<lparr>tv_sec = it_sec, tv_nsec = it_nsec\<rparr>, it_value = T_start\<rparr>
      in if settime_ok then st\<lparr>timers := (timers st)(timerID := Some tim_spec)\<rparr> else st)"

definition expiry_time :: "int \<Rightarrow> int \<Rightarrow> int \<Rightarrow> int option" where
  \<comment> \<open>the expression \<open>base + period*server_sec + server_sec/OFFSET\<close>, which \<open>main\<close> writes out
      four times; \<open>None\<close> when a step overflows\<close>
  "expiry_time base period sec =
     (let a = period * sec;
          b = base + a;
          c = b + sec sdiv OFFSET
      in if in_long_long a \<and> in_long_long b \<and> in_long_long c then Some c else None)"

definition arm_trigger :: "syscalls \<Rightarrow> state \<Rightarrow> state" where
  \<comment> \<open>the block \<open>// Trigger\<close> of \<open>main\<close>\<close>
  "arm_trigger sys st =
     (let (s, st1) = makeTimer sys ''Trigger Timer'' cameraTimerID
                       (as_timespec (T_start_n (TI st))) PERIOD 0 st
      in st1\<lparr>status := s, T_trig_n := T_start_n (TI st1), T_skew_now := T_skew_n (TI st1)\<rparr>)"

definition arm_drift :: "syscalls \<Rightarrow> state \<Rightarrow> state option" where
  \<comment> \<open>the block \<open>// Drift\<close>; \<open>None\<close> when the expiry time overflows\<close>
  "arm_drift sys st =
     (case expiry_time (T_trig_n st) drift_period (server_sec st) of
        None \<Rightarrow> None
      | Some t_drift \<Rightarrow>
          let st1 = st\<lparr>T_drift_n := t_drift\<rparr>;
              (s, st2) = makeTimer sys ''Drift Timer'' driftTimerID
                           (as_timespec (T_drift_n st1)) 0 0 st1
          in Some (st2\<lparr>status := s\<rparr>))"

definition arm_sync :: "syscalls \<Rightarrow> state \<Rightarrow> state option" where
  \<comment> \<open>the block \<open>// Synchronization\<close>; \<open>None\<close> when the expiry time overflows\<close>
  "arm_sync sys st =
     (case expiry_time (T_trig_n st) sync_period (server_sec st) of
        None \<Rightarrow> None
      | Some t_sync \<Rightarrow>
          let st1 = st\<lparr>T_sync_n := t_sync\<rparr>;
              (s, st2) = makeTimer sys ''Sync Timer'' syncTimerID
                           (as_timespec (T_sync_n st1)) 0 0 st1
          in Some (st2\<lparr>T_sync_n := T_trig_n st2, status := s\<rparr>))"

definition startup :: "startup_env \<Rightarrow> halt + state" where
  \<comment> \<open>\<open>main\<close> up to the loop\<close>
  "startup env =
     (let st1 = setup_m (init_reply env) initial_state
      in case initial_sync_reply env of
           None \<Rightarrow> Inl (exit 1 st1)
         | Some ti \<Rightarrow>
             (case arm_drift (drift_sys env) (arm_trigger (trigger_sys env) (st1\<lparr>TI := ti\<rparr>)) of
                None \<Rightarrow> Inl undefined_behaviour
              | Some st2 \<Rightarrow>
                  (case arm_sync (sync_sys env) st2 of
                     None \<Rightarrow> Inl undefined_behaviour
                   | Some st3 \<Rightarrow> Inr st3)))"

definition sync_handling :: "loop_env \<Rightarrow> state \<Rightarrow> halt + state" where
  \<comment> \<open>the body of \<open>if (fSync)\<close>\<close>
  "sync_handling env st =
     (case synchronize_reply env of
        None \<Rightarrow> Inl (exit 1 st)
      | Some ti \<Rightarrow>
          let st1 = st\<lparr>TI := ti\<rparr>;
              st2 = resetTimer (sync_camera_ok env) cameraTimerID
                      (as_timespec (T_start_n (TI st1))) (server_sec st1 * PERIOD) st1;
              st3 = st2\<lparr>T_trig_n := T_start_n (TI st2), count := 0\<rparr>
          in case expiry_time (T_start_n (TI st3)) drift_period (server_sec st3) of
               None \<Rightarrow> Inl undefined_behaviour
             | Some t_drift \<Rightarrow>
                 let st4 = st3\<lparr>T_drift_n := t_drift\<rparr>;
                     st5 = resetTimer (sync_drift_ok env) driftTimerID
                             (as_timespec (T_drift_n st4)) 0 st4
                 in Inr (st5\<lparr>T_sync_n := T_start_n (TI st5), T_skew_now := T_skew_n (TI st5),
                              fSync := 0\<rparr>))"

definition drift_handling :: "loop_env \<Rightarrow> state \<Rightarrow> halt + state" where
  \<comment> \<open>the body of \<open>if (fDrift)\<close>\<close>
  "drift_handling env st =
     (let st1 = st\<lparr>T_skew_prev := T_skew_now st\<rparr>
      in case get_skew_reply env of
           None \<Rightarrow> Inl (exit 1 st1)
         | Some ti \<Rightarrow>
             let st2 = st1\<lparr>TI := ti\<rparr>;
                 st3 = st2\<lparr>T_skew_now := T_skew_n (TI st2)\<rparr>
             in case drift_server_sec (T_skew_now st3) (T_skew_prev st3) of
                  None \<Rightarrow> Inl undefined_behaviour
                | Some sec \<Rightarrow>
                    let st4 = st3\<lparr>server_sec := sec\<rparr>;
                        adv = (drift_period + 1) * server_sec st4
                    in if \<not> (in_long_long adv \<and> in_long_long (T_trig_n st4 + adv))
                       then Inl undefined_behaviour
                       else
                         let st5 = st4\<lparr>T_trig_n := T_trig_n st4 + adv, count := 0\<rparr>;
                             st6 = resetTimer (drift_camera_ok env) cameraTimerID
                                     (as_timespec (T_trig_n st5)) (server_sec st5 * PERIOD) st5
                         in case expiry_time (T_sync_n st6) sync_period (server_sec st6) of
                              None \<Rightarrow> Inl undefined_behaviour
                            | Some t_sync \<Rightarrow>
                                let st7 = st6\<lparr>T_sync_n := t_sync\<rparr>;
                                    st8 = resetTimer (drift_sync_ok env) syncTimerID
                                            (as_timespec (T_sync_n st7)) 0 st7
                                in Inr (st8\<lparr>fDrift := 0\<rparr>))"

definition loop_body :: "loop_env \<Rightarrow> state \<Rightarrow> halt + state" where
  \<comment> \<open>one pass of \<open>while (1)\<close>\<close>
  "loop_body env st =
     (case (if fSync st \<noteq> 0 then sync_handling env st else Inr st) of
        Inl h \<Rightarrow> Inl h
      | Inr st1 \<Rightarrow> if fDrift st1 \<noteq> 0 then drift_handling env st1 else Inr st1)"

section \<open>Signals\<close>

text \<open>
  The timer service delivers an expiration only for a timer that is armed. A timer whose
  interval is zero expires once and is then disarmed until the program sets it again; a timer
  with an interval stays armed. All three timers raise \<open>SIGALRM\<close>, which is blocked while
  \<open>timer_handler\<close> runs, so a handler runs to its end before the next one starts. Each
  expiration here is one whose signal is delivered.
\<close>

definition expire :: "timer_id \<Rightarrow> timespec \<Rightarrow> state \<Rightarrow> halt + state" where
  "expire tid clock st =
     (case timers st tid of
        None \<Rightarrow> Inr st
      | Some setting \<Rightarrow>
          timer_handler tid clock
            (if it_interval setting = one_shot then st\<lparr>timers := (timers st)(tid := None)\<rparr>
             else st))"

type_synonym signal = "timer_id \<times> timespec"

fun deliver :: "signal list \<Rightarrow> state \<Rightarrow> halt + state" where
  "deliver [] st = Inr st"
| "deliver ((tid, clock) # sigs) st =
     (case expire tid clock st of Inl h \<Rightarrow> Inl h | Inr st1 \<Rightarrow> deliver sigs st1)"

section \<open>The statements of the loop\<close>

text \<open>
  \<open>main\<close> never blocks \<open>SIGALRM\<close>, so a handler can run between any two statements of the
  loop. The statements of the two cycles are therefore also given one by one, each under the
  number of its first line in \<open>m_camera.cpp\<close>; \<open>L291\<close> is the test \<open>if (fDrift)\<close>. A statement
  that calls \<open>resetTimer\<close> includes the \<open>as_timespec\<close> before it, which writes a local only.
  \<open>exec\<close> runs a list of statements and delivers before each statement \<open>l\<close> the signals
  \<open>sigs l\<close>; a signal delivered while \<open>synchronize\<close> or \<open>get_skew\<close> is in progress counts as
  delivered before the statement after the call.
\<close>

datatype line =
    L261 | L273 | L275 | L277 | L279 | L283 | L286 | L287
  | L291
  | L295 | L299 | L310 | L318 | L320 | L322 | L323 | L331 | L335

fun statement :: "loop_env \<Rightarrow> line \<Rightarrow> state \<Rightarrow> halt + state" where
  "statement env L261 st =
     (case synchronize_reply env of None \<Rightarrow> Inl (exit 1 st) | Some ti \<Rightarrow> Inr (st\<lparr>TI := ti\<rparr>))"
| "statement env L273 st =
     Inr (resetTimer (sync_camera_ok env) cameraTimerID
            (as_timespec (T_start_n (TI st))) (server_sec st * PERIOD) st)"
| "statement env L275 st = Inr (st\<lparr>T_trig_n := T_start_n (TI st)\<rparr>)"
| "statement env L277 st = Inr (st\<lparr>count := 0\<rparr>)"
| "statement env L279 st =
     (case expiry_time (T_start_n (TI st)) drift_period (server_sec st) of
        None \<Rightarrow> Inl undefined_behaviour
      | Some t_drift \<Rightarrow>
          let st1 = st\<lparr>T_drift_n := t_drift\<rparr>
          in Inr (resetTimer (sync_drift_ok env) driftTimerID (as_timespec (T_drift_n st1)) 0 st1))"
| "statement env L283 st = Inr (st\<lparr>T_sync_n := T_start_n (TI st)\<rparr>)"
| "statement env L286 st = Inr (st\<lparr>T_skew_now := T_skew_n (TI st)\<rparr>)"
| "statement env L287 st = Inr (st\<lparr>fSync := 0\<rparr>)"
| "statement env L291 st = Inr st"
| "statement env L295 st = Inr (st\<lparr>T_skew_prev := T_skew_now st\<rparr>)"
| "statement env L299 st =
     (case get_skew_reply env of None \<Rightarrow> Inl (exit 1 st) | Some ti \<Rightarrow> Inr (st\<lparr>TI := ti\<rparr>))"
| "statement env L310 st = Inr (st\<lparr>T_skew_now := T_skew_n (TI st)\<rparr>)"
| "statement env L318 st =
     (case drift_server_sec (T_skew_now st) (T_skew_prev st) of
        None \<Rightarrow> Inl undefined_behaviour
      | Some sec \<Rightarrow> Inr (st\<lparr>server_sec := sec\<rparr>))"
| "statement env L320 st =
     (let adv = (drift_period + 1) * server_sec st
      in if \<not> (in_long_long adv \<and> in_long_long (T_trig_n st + adv))
         then Inl undefined_behaviour
         else Inr (st\<lparr>T_trig_n := T_trig_n st + adv\<rparr>))"
| "statement env L322 st = Inr (st\<lparr>count := 0\<rparr>)"
| "statement env L323 st =
     Inr (resetTimer (drift_camera_ok env) cameraTimerID
            (as_timespec (T_trig_n st)) (server_sec st * PERIOD) st)"
| "statement env L331 st =
     (case expiry_time (T_sync_n st) sync_period (server_sec st) of
        None \<Rightarrow> Inl undefined_behaviour
      | Some t_sync \<Rightarrow>
          let st1 = st\<lparr>T_sync_n := t_sync\<rparr>
          in Inr (resetTimer (drift_sync_ok env) syncTimerID (as_timespec (T_sync_n st1)) 0 st1))"
| "statement env L335 st = Inr (st\<lparr>fDrift := 0\<rparr>)"

definition sync_lines :: "line list" where
  "sync_lines = [L261, L273, L275, L277, L279, L283, L286, L287]"

definition drift_lines :: "line list" where
  "drift_lines = [L295, L299, L310, L318, L320, L322, L323, L331, L335]"

fun exec :: "(line \<Rightarrow> signal list) \<Rightarrow> loop_env \<Rightarrow> line list \<Rightarrow> state \<Rightarrow> halt + state" where
  "exec sigs env [] st = Inr st"
| "exec sigs env (l # ls) st =
     (case deliver (sigs l) st of
        Inl h \<Rightarrow> Inl h
      | Inr st1 \<Rightarrow>
          (case statement env l st1 of Inl h \<Rightarrow> Inl h | Inr st2 \<Rightarrow> exec sigs env ls st2))"

definition interrupted_body :: "loop_env \<Rightarrow> (line \<Rightarrow> signal list) \<Rightarrow> state \<Rightarrow> halt + state" where
  \<comment> \<open>one pass of \<open>while (1)\<close> with the signals \<open>sigs\<close> delivered while it runs\<close>
  "interrupted_body env sigs st =
     (case (if fSync st \<noteq> 0 then exec sigs env sync_lines st else Inr st) of
        Inl h \<Rightarrow> Inl h
      | Inr st1 \<Rightarrow>
          (case deliver (sigs L291) st1 of
             Inl h \<Rightarrow> Inl h
           | Inr st2 \<Rightarrow> if fDrift st2 \<noteq> 0 then exec sigs env drift_lines st2 else Inr st2))"

section \<open>Runs\<close>

text \<open>
  A run is a sequence of events: an expiration delivered while the loop is between two passes
  (in \<open>usleep\<close> or at the test \<open>if (fSync)\<close>), a loop pass during which no signal is delivered
  (\<open>loop_body\<close>), and a loop pass with the signals delivered at each of its statements
  (\<open>interrupted_body\<close>). No expiration is taken during \<open>startup\<close>: \<open>triggerCamera\<close> writes
  nothing that the statements of startup read, so a Trigger expiration there has the effect
  of the same expiration right after startup.
\<close>

datatype event =
    Expiration timer_id timespec
  | Loop_pass loop_env
  | Interrupted_pass loop_env "line \<Rightarrow> signal list"

fun step :: "event \<Rightarrow> state \<Rightarrow> halt + state" where
  "step (Expiration tid clock) st = expire tid clock st"
| "step (Loop_pass env) st = loop_body env st"
| "step (Interrupted_pass env sigs) st = interrupted_body env sigs st"

fun run :: "event list \<Rightarrow> state \<Rightarrow> halt + state" where
  "run [] st = Inr st"
| "run (e # es) st = (case step e st of Inl h \<Rightarrow> Inl h | Inr st1 \<Rightarrow> run es st1)"

definition main :: "startup_env \<Rightarrow> event list \<Rightarrow> halt + state" where
  "main env es = (case startup env of Inl h \<Rightarrow> Inl h | Inr st \<Rightarrow> run es st)"

section \<open>Example replies\<close>

text \<open>
  Replies used to run the model on concrete inputs: every system call succeeds, the kernel
  numbers the timers 0, 1 and 2 in the order of their creation, and the clock adapter answers
  as given. \<open>observe\<close> reads a component of the state a run has
  reached, \<open>None\<close> when the run has ended.
\<close>

definition all_ok :: syscalls where
  "all_ok =
     \<lparr>sigaction_ok = True, timer_create_ok = True, timer_settime_ok = True, new_timer_id = 0\<rparr>"

definition startup_with :: "int \<Rightarrow> timeinfo option \<Rightarrow> startup_env" where
  "startup_with init reply =
     \<lparr>init_reply = init, initial_sync_reply = reply,
      trigger_sys = all_ok, drift_sys = all_ok\<lparr>new_timer_id := 1\<rparr>,
      sync_sys = all_ok\<lparr>new_timer_id := 2\<rparr>\<rparr>"

definition pass_with :: "timeinfo option \<Rightarrow> timeinfo option \<Rightarrow> loop_env" where
  "pass_with sync_reply skew_reply =
     \<lparr>synchronize_reply = sync_reply, sync_camera_ok = True, sync_drift_ok = True,
      get_skew_reply = skew_reply, drift_camera_ok = True, drift_sync_ok = True\<rparr>"

definition at_line :: "line \<Rightarrow> signal list \<Rightarrow> line \<Rightarrow> signal list" where
  \<comment> \<open>the signals \<open>sigs\<close> delivered just before statement \<open>l\<close>, none elsewhere\<close>
  "at_line l sigs = (\<lambda>m. if m = l then sigs else [])"

definition observe :: "(state \<Rightarrow> 'a) \<Rightarrow> halt + state \<Rightarrow> 'a option" where
  "observe f r = (case r of Inl h \<Rightarrow> None | Inr st \<Rightarrow> Some (f st))"

definition succeed :: "syscalls \<Rightarrow> bool" where
  \<comment> \<open>the three system calls of a \<open>makeTimer\<close> all succeed\<close>
  "succeed sys \<longleftrightarrow> sigaction_ok sys \<and> timer_create_ok sys \<and> timer_settime_ok sys"

section \<open>Admissible skew deltas\<close>

text \<open>
  The condition of the specification on a skew delta \<open>d\<close>: the real quotient
  \<open>d / drift_period\<close> is above \<open>-1e9\<close>. A loop pass is admissible when the Drift cycle it
  runs, if any, has an admissible delta (the previous skew is the one in place after the Sync
  cycle of the same pass); a run is admissible when each of its loop passes is, with or
  without signals.
\<close>

definition admissible_delta :: "int \<Rightarrow> bool" where
  "admissible_delta d \<longleftrightarrow> - (10 ^ 9) < (of_int d :: rat) / of_int drift_period"

definition admissible_pass :: "loop_env \<Rightarrow> state \<Rightarrow> bool" where
  "admissible_pass env st =
     (case (if fSync st \<noteq> 0 then sync_handling env st else Inr st) of
        Inl h \<Rightarrow> True
      | Inr st1 \<Rightarrow>
          (case get_skew_reply env of
             None \<Rightarrow> True
           | Some ti \<Rightarrow> fDrift st1 = 0 \<or> admissible_delta (T_skew_n ti - T_skew_now st1)))"

definition admissible_interrupted :: "loop_env \<Rightarrow> (line \<Rightarrow> signal list) \<Rightarrow> state \<Rightarrow> bool" where
  "admissible_interrupted env sigs st =
     (case (if fSync st \<noteq> 0 then exec sigs env sync_lines st else Inr st) of
        Inl h \<Rightarrow> True
      | Inr st1 \<Rightarrow>
          (case deliver (sigs L291) st1 of
             Inl h \<Rightarrow> True
           | Inr st2 \<Rightarrow>
               (case get_skew_reply env of
                  None \<Rightarrow> True
                | Some ti \<Rightarrow> fDrift st2 = 0 \<or> admissible_delta (T_skew_n ti - T_skew_now st2))))"

fun admissible_run :: "event list \<Rightarrow> state \<Rightarrow> bool" where
  "admissible_run [] st = True"
| "admissible_run (Expiration tid clock # es) st =
     (case expire tid clock st of Inl h \<Rightarrow> True | Inr st1 \<Rightarrow> admissible_run es st1)"
| "admissible_run (Loop_pass env # es) st =
     (admissible_pass env st
      \<and> (case loop_body env st of Inl h \<Rightarrow> True | Inr st1 \<Rightarrow> admissible_run es st1))"
| "admissible_run (Interrupted_pass env sigs # es) st =
     (admissible_interrupted env sigs st
      \<and> (case interrupted_body env sigs st of
            Inl h \<Rightarrow> True
          | Inr st1 \<Rightarrow> admissible_run es st1))"

section \<open>Counting cycles\<close>

text \<open>
  \<open>sync_cycles es st\<close> and \<open>drift_cycles es st\<close> are the numbers of Sync and of Drift handling
  cycles that the run of the events \<open>es\<close> from \<open>st\<close> enters: a pass enters the Sync cycle when
  it finds \<open>fSync\<close> raised at line 242, and the Drift cycle when it reaches line 291 and finds
  \<open>fDrift\<close> raised. \<open>drift_one_shot\<close> says that the Drift timer, if armed, has interval zero,
  and \<open>pending_drift\<close> counts what can still start a Drift cycle: a raised \<open>fDrift\<close> and an
  armed Drift timer.
\<close>

fun sync_entered :: "event \<Rightarrow> state \<Rightarrow> nat" where
  "sync_entered (Expiration tid clock) st = 0"
| "sync_entered (Loop_pass env) st = (if fSync st \<noteq> 0 then 1 else 0)"
| "sync_entered (Interrupted_pass env sigs) st = (if fSync st \<noteq> 0 then 1 else 0)"

fun drift_entered :: "event \<Rightarrow> state \<Rightarrow> nat" where
  "drift_entered (Expiration tid clock) st = 0"
| "drift_entered (Loop_pass env) st =
     (case (if fSync st \<noteq> 0 then sync_handling env st else Inr st) of
        Inl h \<Rightarrow> 0
      | Inr st1 \<Rightarrow> if fDrift st1 \<noteq> 0 then 1 else 0)"
| "drift_entered (Interrupted_pass env sigs) st =
     (case (if fSync st \<noteq> 0 then exec sigs env sync_lines st else Inr st) of
        Inl h \<Rightarrow> 0
      | Inr st1 \<Rightarrow>
          (case deliver (sigs L291) st1 of
             Inl h \<Rightarrow> 0
           | Inr st2 \<Rightarrow> if fDrift st2 \<noteq> 0 then 1 else 0))"

fun sync_cycles :: "event list \<Rightarrow> state \<Rightarrow> nat" where
  "sync_cycles [] st = 0"
| "sync_cycles (e # es) st =
     sync_entered e st + (case step e st of Inl h \<Rightarrow> 0 | Inr st1 \<Rightarrow> sync_cycles es st1)"

fun drift_cycles :: "event list \<Rightarrow> state \<Rightarrow> nat" where
  "drift_cycles [] st = 0"
| "drift_cycles (e # es) st =
     drift_entered e st + (case step e st of Inl h \<Rightarrow> 0 | Inr st1 \<Rightarrow> drift_cycles es st1)"

definition drift_one_shot :: "state \<Rightarrow> bool" where
  "drift_one_shot st =
     (case timers st driftTimerID of None \<Rightarrow> True | Some setting \<Rightarrow> it_interval setting = one_shot)"

definition pending_drift :: "state \<Rightarrow> nat" where
  "pending_drift st =
     (if fDrift st \<noteq> 0 then 1 else 0) + (if timers st driftTimerID = None then 0 else 1)"

section \<open>Variables that no handler writes\<close>

text \<open>
  \<open>timer_handler\<close> and \<open>triggerCamera\<close> write \<open>count\<close>, the flags, \<open>now\<close>, \<open>t_rtc\<close> and the log.
  \<open>same_locals s t\<close> says that two states agree on every other variable that the statements
  of the loop read.
\<close>

definition same_locals :: "state \<Rightarrow> state \<Rightarrow> bool" where
  "same_locals s t \<longleftrightarrow>
     server_sec s = server_sec t \<and> T_skew_prev s = T_skew_prev t \<and> T_skew_now s = T_skew_now t
     \<and> T_trig_n s = T_trig_n t \<and> T_sync_n s = T_sync_n t \<and> T_drift_n s = T_drift_n t
     \<and> TI s = TI t"

section \<open>Counting runs of \<open>triggerCamera\<close>\<close>

text \<open>
  Each cycle is cut after the statement that resets \<open>count\<close>: line 277 in the Sync cycle,
  line 322 in the Drift cycle.
\<close>

definition sync_to_reset :: "line list" where
  "sync_to_reset = [L261, L273, L275, L277]"

definition sync_after_reset :: "line list" where
  "sync_after_reset = [L279, L283, L286, L287]"

definition drift_to_reset :: "line list" where
  "drift_to_reset = [L295, L299, L310, L318, L320, L322]"

definition drift_after_reset :: "line list" where
  "drift_after_reset = [L323, L331, L335]"

text \<open>
  \<open>triggers sigs st\<close> is the number of times that \<open>timer_handler\<close> calls \<open>triggerCamera\<close> while
  the signals \<open>sigs\<close> are delivered from \<open>st\<close>, and \<open>exec_triggers sigs env ls st\<close> that number
  for the signals delivered while the statements \<open>ls\<close> run.
\<close>

definition triggers_camera :: "timer_id \<Rightarrow> state \<Rightarrow> bool" where
  "triggers_camera tid st \<longleftrightarrow>
     timers st tid \<noteq> None \<and> kernel_id st tid = kernel_id st cameraTimerID"

fun triggers :: "signal list \<Rightarrow> state \<Rightarrow> nat" where
  "triggers [] st = 0"
| "triggers ((tid, clock) # sigs) st =
     (if triggers_camera tid st then 1 else 0)
     + (case expire tid clock st of Inl h \<Rightarrow> 0 | Inr st1 \<Rightarrow> triggers sigs st1)"

fun exec_triggers :: "(line \<Rightarrow> signal list) \<Rightarrow> loop_env \<Rightarrow> line list \<Rightarrow> state \<Rightarrow> nat" where
  "exec_triggers sigs env [] st = 0"
| "exec_triggers sigs env (l # ls) st =
     triggers (sigs l) st
     + (case deliver (sigs l) st of
          Inl h \<Rightarrow> 0
        | Inr st1 \<Rightarrow>
            (case statement env l st1 of
               Inl h \<Rightarrow> 0
             | Inr st2 \<Rightarrow> exec_triggers sigs env ls st2))"

section \<open>Rounding to double precision\<close>

lemma round_half_even_error: "\<bar>of_int (round_half_even y) - y\<bar> \<le> 1 / 2"
proof -
  define f where "f = \<lfloor>y\<rfloor>"
  have a: "of_int f \<le> y" "y < of_int f + 1"
    unfolding f_def by linarith+
  have "round_half_even y = f \<and> y - of_int f \<le> 1 / 2
      \<or> round_half_even y = f + 1 \<and> 1 / 2 \<le> y - of_int f"
    unfolding round_half_even_def Let_def f_def [symmetric] by auto
  then show ?thesis
  proof
    assume "round_half_even y = f \<and> y - of_int f \<le> 1 / 2"
    then show ?thesis using a by (simp add: abs_if)
  next
    assume "round_half_even y = f + 1 \<and> 1 / 2 \<le> y - of_int f"
    then show ?thesis using a by (simp add: abs_if)
  qed
qed

lemma ilog2_bounds:
  assumes "0 < x"
  shows "2 powi (ilog2 x) \<le> x" and "x < 2 powi (ilog2 x + 1)"
proof -
  have "2 powi (ilog2 x) \<le> x \<and> x < 2 powi (ilog2 x + 1)"
  proof (cases "1 \<le> x")
    case True
    define n where "n = \<lfloor>x\<rfloor>"
    have n: "0 < n" using True by (simp add: n_def)
    have nx: "of_int n \<le> x" "x < of_int n + 1" unfolding n_def by linarith+
    from bitlen_bounds [OF n] have b: "2 ^ nat (bitlen n - 1) \<le> n" "n < 2 ^ nat (bitlen n)"
      by simp_all
    have bl: "1 \<le> bitlen n" using n bitlen_eq_zero_iff [of n] bitlen_nonneg [of n] by linarith
    have e: "ilog2 x = bitlen n - 1" using True by (simp add: ilog2_def n_def)
    have "(2::rat) powi (bitlen n - 1) = 2 ^ nat (bitlen n - 1)"
      using bl by (simp add: power_int_def)
    also have "\<dots> = of_int (2 ^ nat (bitlen n - 1))" by simp
    also have "\<dots> \<le> of_int n" using b(1) by (simp only: of_int_le_iff)
    finally have lo: "(2::rat) powi (bitlen n - 1) \<le> x" using nx(1) by linarith
    have "n + 1 \<le> 2 ^ nat (bitlen n)" using b(2) by simp
    then have "(of_int (n + 1) :: rat) \<le> of_int (2 ^ nat (bitlen n))" by (simp only: of_int_le_iff)
    also have "\<dots> = 2 ^ nat (bitlen n)" by simp
    finally have "of_int n + 1 \<le> (2::rat) ^ nat (bitlen n)" by simp
    then have "x < 2 ^ nat (bitlen n)" using nx(2) by linarith
    also have "(2::rat) ^ nat (bitlen n) = 2 powi (bitlen n - 1 + 1)"
      using bl by (simp add: power_int_def)
    finally show ?thesis using lo e by simp
  next
    case False
    then have x1: "x < 1" by simp
    define n where "n = \<lfloor>1 / x\<rfloor>"
    define k where "k = bitlen n - 1"
    have "1 < 1 / x" using assms x1 by simp
    then have n: "0 < n" by (simp add: n_def)
    have nx: "of_int n \<le> 1 / x" "1 / x < of_int n + 1" unfolding n_def by linarith+
    from bitlen_bounds [OF n] have b: "2 ^ nat k \<le> n" "n < 2 ^ nat (k + 1)"
      by (simp_all add: k_def)
    have k0: "0 \<le> k" using n bitlen_eq_zero_iff [of n] bitlen_nonneg [of n] unfolding k_def by linarith
    have "(2::rat) ^ nat k = of_int (2 ^ nat k)" by simp
    also have "\<dots> \<le> of_int n" using b(1) by (simp only: of_int_le_iff)
    finally have "2 ^ nat k \<le> 1 / x" using nx(1) by linarith
    then have up: "x * 2 ^ nat k \<le> 1" using assms by (simp add: field_simps)
    have "n + 1 \<le> 2 ^ nat (k + 1)" using b(2) by simp
    then have "(of_int (n + 1) :: rat) \<le> of_int (2 ^ nat (k + 1))" by (simp only: of_int_le_iff)
    also have "\<dots> = 2 ^ nat (k + 1)" by simp
    finally have "of_int n + 1 \<le> (2::rat) ^ nat (k + 1)" by simp
    then have "1 / x < 2 ^ nat (k + 1)" using nx(2) by linarith
    then have lo: "1 < x * 2 ^ nat (k + 1)" using assms by (simp add: field_simps)
    have p1: "(2::rat) powi (- k) = 1 / 2 ^ nat k" using k0 by (simp add: power_int_def field_simps)
    have p2: "(2::rat) powi (- k - 1) = 1 / 2 ^ nat (k + 1)"
      using k0 by (simp add: power_int_def field_simps)
    have "(2::rat) powi (- k + 1) = 2 powi (- k) * 2 powi 1"
      by (rule power_int_add) simp
    then have p3: "(2::rat) powi (- k + 1) = 2 / 2 ^ nat k"
      unfolding p1 by simp
    have p4: "(2::rat) ^ nat (k + 1) = 2 * 2 ^ nat k" using k0 by (simp add: nat_add_distrib)
    show ?thesis
    proof (cases "x * 2 ^ nat k = 1")
      case True
      then have e: "ilog2 x = - k" using False by (simp add: ilog2_def n_def k_def Let_def)
      have "x = 1 / 2 ^ nat k" using True by (simp add: field_simps)
      then show ?thesis unfolding e p1 p3 by (simp add: divide_strict_right_mono)
    next
      case ne: False
      then have e: "ilog2 x = - k - 1" using False by (simp add: ilog2_def n_def k_def Let_def)
      have "x * 2 ^ nat k < 1" using up ne by simp
      then have "x < 1 / 2 ^ nat k" by (simp add: field_simps)
      moreover have "1 / 2 ^ nat (k + 1) < x" using lo by (simp add: field_simps)
      ultimately show ?thesis unfolding e using p1 p2 by simp
    qed
  qed
  then show "2 powi (ilog2 x) \<le> x" and "x < 2 powi (ilog2 x + 1)" by simp_all
qed


lemma finite_double_bounded:
  assumes "\<bar>x\<bar> < 2 ^ 1024"
  shows "finite_double x = Some x"
proof (cases "x = 0")
  case True
  then show ?thesis
    by (simp add: finite_double_def)
next
  case False
  then have "0 < \<bar>x\<bar>"
    by simp
  then have "2 powi (ilog2 \<bar>x\<bar>) \<le> \<bar>x\<bar>"
    by (rule ilog2_bounds)
  with assms have lt: "(2::rat) powi (ilog2 \<bar>x\<bar>) < 2 powi 1024"
    by simp
  have "ilog2 \<bar>x\<bar> < 1024"
  proof (rule ccontr)
    assume "\<not> ilog2 \<bar>x\<bar> < 1024"
    then have "1024 \<le> ilog2 \<bar>x\<bar>"
      by simp
    then have "(2::rat) powi 1024 \<le> 2 powi (ilog2 \<bar>x\<bar>)"
      by (rule power_int_increasing) simp
    with lt show False
      by linarith
  qed
  then show ?thesis
    by (simp add: finite_double_def)
qed

lemma round_double_error:
  assumes "2 powi (- 1022) \<le> \<bar>x\<bar>"
  shows "\<bar>round_double x - x\<bar> \<le> \<bar>x\<bar> / 2 ^ 53"
proof -
  define b where "b = ilog2 \<bar>x\<bar>"
  define e where "e = b - 52"
  define m where "m = round_half_even (x / 2 powi e)"
  have "(0::rat) < 2 powi (- 1022)"
    by simp
  with assms have pos: "0 < \<bar>x\<bar>"
    by linarith
  then have x0: "x \<noteq> 0"
    by simp
  from ilog2_bounds [OF pos] have lo: "2 powi b \<le> \<bar>x\<bar>" and hi: "\<bar>x\<bar> < 2 powi (b + 1)"
    by (simp_all add: b_def)
  have "- 1022 \<le> b"
  proof (rule ccontr)
    assume "\<not> - 1022 \<le> b"
    then have "b + 1 \<le> - 1022"
      by simp
    then have "(2::rat) powi (b + 1) \<le> 2 powi (- 1022)"
      by (rule power_int_increasing) simp
    with hi assms show False
      by linarith
  qed
  then have emax: "max (ilog2 \<bar>x\<bar> - 52) (- 1074) = e"
    by (simp add: e_def b_def)
  have rd: "round_double x = of_int m * 2 powi e"
    using x0 by (simp add: round_double_def emax m_def)
  have pe: "(0::rat) < 2 powi e"
    by simp
  have "\<bar>of_int m - x / 2 powi e\<bar> \<le> 1 / 2"
    unfolding m_def by (rule round_half_even_error)
  then have "\<bar>of_int m - x / 2 powi e\<bar> * 2 powi e \<le> 1 / 2 * 2 powi e"
    using pe by (simp only: mult_le_cancel_right_pos)
  moreover have "\<bar>of_int m - x / 2 powi e\<bar> * 2 powi e = \<bar>of_int m * 2 powi e - x\<bar>"
  proof -
    have "\<bar>of_int m - x / 2 powi e\<bar> * 2 powi e = \<bar>(of_int m - x / 2 powi e) * 2 powi e\<bar>"
      using pe by (simp add: abs_mult)
    also have "(of_int m - x / 2 powi e) * 2 powi e = of_int m * 2 powi e - x"
      using pe by (simp add: field_simps)
    finally show ?thesis .
  qed
  ultimately have err: "\<bar>round_double x - x\<bar> \<le> 1 / 2 * 2 powi e"
    by (simp add: rd)
  have "b = e + 52"
    by (simp add: e_def)
  then have "(2::rat) powi b = 2 powi (e + 52)"
    by (simp only:)
  also have "\<dots> = 2 powi e * 2 powi 52"
    by (rule power_int_add) simp
  finally have "(2::rat) powi e * 2 ^ 52 \<le> \<bar>x\<bar>"
    using lo by simp
  then have "1 / 2 * 2 powi e \<le> \<bar>x\<bar> / 2 ^ 53"
    by (simp add: field_simps)
  with err show ?thesis
    by linarith
qed


lemma round_double_abs_bounds:
  assumes "2 powi (- 1022) \<le> \<bar>x\<bar>"
  shows "\<bar>x\<bar> * (1 - 1 / 2 ^ 53) \<le> \<bar>round_double x\<bar>"
    and "\<bar>round_double x\<bar> \<le> \<bar>x\<bar> * (1 + 1 / 2 ^ 53)"
proof -
  have e: "\<bar>round_double x - x\<bar> \<le> \<bar>x\<bar> / 2 ^ 53"
    using assms by (rule round_double_error)
  have l: "\<bar>x\<bar> * (1 - 1 / 2 ^ 53) = \<bar>x\<bar> - \<bar>x\<bar> / 2 ^ 53"
    by (simp add: algebra_simps)
  have r: "\<bar>x\<bar> * (1 + 1 / 2 ^ 53) = \<bar>x\<bar> + \<bar>x\<bar> / 2 ^ 53"
    by (simp add: algebra_simps)
  show "\<bar>x\<bar> * (1 - 1 / 2 ^ 53) \<le> \<bar>round_double x\<bar>"
    unfolding l using e by linarith
  show "\<bar>round_double x\<bar> \<le> \<bar>x\<bar> * (1 + 1 / 2 ^ 53)"
    unfolding r using e by linarith
qed

lemma round_double_pos:
  assumes "2 powi (- 1022) \<le> x"
  shows "0 < round_double x"
proof -
  have x: "0 < x"
    using assms by (rule less_le_trans [rotated]) simp
  then have "2 powi (- 1022) \<le> \<bar>x\<bar>"
    using assms by simp
  then have "\<bar>round_double x - x\<bar> \<le> \<bar>x\<bar> / 2 ^ 53"
    by (rule round_double_error)
  moreover have "\<bar>x\<bar> / 2 ^ 53 < x"
    using x by simp
  ultimately show ?thesis
    by linarith
qed

lemma round_double_neg:
  assumes "x \<le> - (2 powi (- 1022))"
  shows "round_double x < 0"
proof -
  have "(0::rat) < 2 powi (- 1022)"
    by simp
  with assms have x: "x < 0"
    by linarith
  then have "2 powi (- 1022) \<le> \<bar>x\<bar>"
    using assms by simp
  then have "\<bar>round_double x - x\<bar> \<le> \<bar>x\<bar> / 2 ^ 53"
    by (rule round_double_error)
  moreover have "\<bar>x\<bar> / 2 ^ 53 < - x"
    using x by simp
  ultimately show ?thesis
    by linarith
qed

lemma chain_generic:
  fixes A B C D k c1 c2 :: rat
  assumes B: "0 < B" and D: "0 \<le> D" and c1: "0 < c1" and c2: "0 < c2" and k: "0 < k"
    and AB: "A * c1 \<le> B" "B \<le> A * c2"
    and CB: "k * c1 \<le> C * B" "C * B \<le> k * c2"
    and DC: "k * C * c1 \<le> D" "D \<le> k * C * c2"
  shows "k * k * (c1 * c1) / c2 \<le> D * A" and "D * A \<le> k * k * (c2 * c2) / c1"
proof -
  have "D * B \<le> k * C * c2 * B"
    using DC(2) B by (simp only: mult_le_cancel_right_pos)
  also have "\<dots> = k * c2 * (C * B)"
    by (simp add: algebra_simps)
  also have "\<dots> \<le> k * c2 * (k * c2)"
    using CB(2) k c2 by (intro mult_left_mono) simp_all
  finally have DBu: "D * B \<le> k * c2 * (k * c2)" .
  have "D * (A * c1) \<le> D * B"
    using AB(1) D by (rule mult_left_mono)
  with DBu have "D * A * c1 \<le> k * c2 * (k * c2)"
    by (simp add: mult.assoc)
  then have "D * A \<le> k * c2 * (k * c2) / c1"
    using c1 by (simp add: pos_le_divide_eq)
  then show "D * A \<le> k * k * (c2 * c2) / c1"
    by (simp add: algebra_simps)
  have "k * c1 * (k * c1) \<le> k * c1 * (C * B)"
    using CB(1) k c1 by (intro mult_left_mono) simp_all
  also have "\<dots> = k * C * c1 * B"
    by (simp add: algebra_simps)
  also have "\<dots> \<le> D * B"
    using DC(1) B by (simp only: mult_le_cancel_right_pos)
  also have "\<dots> \<le> D * (A * c2)"
    using AB(2) D by (rule mult_left_mono)
  finally have "k * c1 * (k * c1) \<le> D * A * c2"
    by (simp add: mult.assoc)
  then have "k * c1 * (k * c1) / c2 \<le> D * A"
    using c2 by (simp add: pos_divide_le_eq)
  then show "k * k * (c1 * c1) / c2 \<le> D * A"
    by (simp add: algebra_simps)
qed

lemma period_chain:
  fixes p P R1 R2 :: rat
  assumes p: "1 \<le> \<bar>p\<bar>"
    and P: "\<bar>p\<bar> * (1 - 1 / 2 ^ 53) \<le> \<bar>P\<bar>" "\<bar>P\<bar> \<le> \<bar>p\<bar> * (1 + 1 / 2 ^ 53)"
    and R1: "\<bar>10 ^ 9 / P\<bar> * (1 - 1 / 2 ^ 53) \<le> \<bar>R1\<bar>"
      "\<bar>R1\<bar> \<le> \<bar>10 ^ 9 / P\<bar> * (1 + 1 / 2 ^ 53)"
    and R2: "\<bar>10 ^ 9 * R1\<bar> * (1 - 1 / 2 ^ 53) \<le> \<bar>R2\<bar>"
      "\<bar>R2\<bar> \<le> \<bar>10 ^ 9 * R1\<bar> * (1 + 1 / 2 ^ 53)"
  shows "\<bar>10 ^ 18 / p\<bar> * (1 - 1 / 2 ^ 51) \<le> \<bar>R2\<bar>"
    and "\<bar>R2\<bar> \<le> \<bar>10 ^ 18 / p\<bar> * (1 + 1 / 2 ^ 51)"
proof -
  define A where "A = \<bar>p\<bar>"
  define B where "B = \<bar>P\<bar>"
  define C where "C = \<bar>R1\<bar>"
  define D where "D = \<bar>R2\<bar>"
  define k :: rat where "k = 10 ^ 9"
  define c1 :: rat where "c1 = 1 - 1 / 2 ^ 53"
  define c2 :: rat where "c2 = 1 + 1 / 2 ^ 53"
  have A: "1 \<le> A"
    using p by (simp add: A_def)
  have c1: "0 < c1" and c2: "0 < c2" and k: "0 < k"
    by (simp_all add: c1_def c2_def k_def)
  have "0 < A * c1"
    using A c1 by simp
  then have B: "0 < B"
    using P(1) unfolding A_def B_def c1_def by linarith
  have AB: "A * c1 \<le> B" "B \<le> A * c2"
    using P by (simp_all add: A_def B_def c1_def c2_def)
  have D0: "0 \<le> D"
    by (simp add: D_def)
  have q: "\<bar>10 ^ 9 / P\<bar> = k / B"
    by (simp add: B_def k_def)
  have "k / B * c1 \<le> C" "C \<le> k / B * c2"
    using R1 unfolding q C_def c1_def c2_def by simp_all
  then have CB: "k * c1 \<le> C * B" "C * B \<le> k * c2"
    using B by (simp_all add: field_simps)
  have c: "\<bar>10 ^ 9 * R1\<bar> = k * C"
    by (simp add: C_def k_def abs_mult)
  have DC: "k * C * c1 \<le> D" "D \<le> k * C * c2"
    using R2 unfolding c D_def c1_def c2_def by simp_all
  note g = chain_generic [OF B D0 c1 c2 k AB CB DC]
  define K :: rat where "K = 10 ^ 18"
  define e1 :: rat where "e1 = 1 - 1 / 2 ^ 51"
  define e2 :: rat where "e2 = 1 + 1 / 2 ^ 51"
  have A0: "0 < A"
    using A by linarith
  have "K * e1 \<le> k * k * (c1 * c1) / c2"
    by (simp add: K_def e1_def k_def c1_def c2_def)
  with g(1) have "K * e1 \<le> D * A"
    by linarith
  then have "K * e1 / A \<le> D"
    using A0 by (simp only: pos_divide_le_eq)
  then have lo: "K / A * e1 \<le> D"
    by simp
  have "k * k * (c2 * c2) / c1 \<le> K * e2"
    by (simp add: K_def e2_def k_def c1_def c2_def)
  with g(2) have "D * A \<le> K * e2"
    by linarith
  then have "D \<le> K * e2 / A"
    using A0 by (simp only: pos_le_divide_eq)
  then have up: "D \<le> K / A * e2"
    by simp
  have E: "\<bar>10 ^ 18 / p\<bar> = K / A"
    by (simp add: A_def K_def)
  show "\<bar>10 ^ 18 / p\<bar> * (1 - 1 / 2 ^ 51) \<le> \<bar>R2\<bar>"
    unfolding E D_def [symmetric] e1_def [symmetric] by (rule lo)
  show "\<bar>R2\<bar> \<le> \<bar>10 ^ 18 / p\<bar> * (1 + 1 / 2 ^ 51)"
    unfolding E D_def [symmetric] e2_def [symmetric] by (rule up)
qed


lemma double_of_BILLION: "double_of_long_long BILLION = 10 ^ 9"
  by code_simp

lemma truncate_double_abs_le: "\<bar>of_int (truncate_double x)\<bar> \<le> \<bar>x\<bar>"
proof (cases "0 \<le> x")
  case True
  then have "of_int \<lfloor>x\<rfloor> \<le> x" and "0 \<le> \<lfloor>x\<rfloor>"
    by simp_all
  with True show ?thesis
    by (simp add: truncate_double_def)
next
  case False
  then have "x \<le> of_int \<lceil>x\<rceil>" and "\<lceil>x\<rceil> \<le> 0"
    by (simp_all add: ceiling_le_iff)
  with False show ?thesis
    by (simp add: truncate_double_def)
qed

lemma double_period:
  fixes p :: int
  assumes p0: "p \<noteq> 0" and pr: "in_long_long p"
  shows "\<exists>R. (case fdiv (double_of_long_long BILLION) (double_of_long_long p) of
                 None \<Rightarrow> None
               | Some r \<Rightarrow> fmul (double_of_long_long BILLION) r) = Some R
           \<and> \<bar>10 ^ 18 / of_int p\<bar> * (1 - 1 / 2 ^ 51) \<le> \<bar>R\<bar>
           \<and> \<bar>R\<bar> \<le> \<bar>10 ^ 18 / of_int p\<bar> * (1 + 1 / 2 ^ 51)
           \<and> (0 < p \<longrightarrow> 0 < R) \<and> (p < 0 \<longrightarrow> R < 0)"
proof -
  define x :: rat where "x = of_int p"
  define P where "P = round_double x"
  define a where "a = 10 ^ 9 / P"
  define R1 where "R1 = round_double a"
  define c where "c = 10 ^ 9 * R1"
  define R2 where "R2 = round_double c"
  have tiny: "(2::rat) powi (- 1022) \<le> 1 / 2 ^ 70"
    by simp
  have "1 \<le> \<bar>p\<bar>"
    using p0 by simp
  then have "(of_int 1 :: rat) \<le> of_int \<bar>p\<bar>"
    by (simp only: of_int_le_iff)
  then have x1: "1 \<le> \<bar>x\<bar>"
    by (simp add: x_def)
  have "\<bar>p\<bar> \<le> 2 ^ 63"
    using pr unfolding in_long_long_def LLONG_MAX_def LLONG_MIN_def by linarith
  then have "(of_int \<bar>p\<bar> :: rat) \<le> of_int (2 ^ 63)"
    by (simp only: of_int_le_iff)
  then have x2: "\<bar>x\<bar> \<le> 2 ^ 63"
    by (simp add: x_def)
  have xt: "2 powi (- 1022) \<le> \<bar>x\<bar>"
    by (rule order_trans [OF tiny]) (use x1 in simp)
  note Pb = round_double_abs_bounds [OF xt, folded P_def]
  have P1: "1 / 2 \<le> \<bar>P\<bar>" and P2: "\<bar>P\<bar> \<le> 2 ^ 64"
    using Pb x1 x2 by simp_all
  have Ppos: "0 < \<bar>P\<bar>"
    using P1 by linarith
  have aa: "\<bar>a\<bar> = 10 ^ 9 / \<bar>P\<bar>"
    by (simp add: a_def)
  have a1: "10 ^ 9 / 2 ^ 64 \<le> \<bar>a\<bar>"
    unfolding aa using P2 Ppos by (simp add: field_simps)
  have a2: "\<bar>a\<bar> \<le> 2 * 10 ^ 9"
    unfolding aa using P1 Ppos by (simp add: field_simps)
  have at: "2 powi (- 1022) \<le> \<bar>a\<bar>"
    by (rule order_trans [OF tiny]) (use a1 in simp)
  note R1b = round_double_abs_bounds [OF at, folded R1_def]
  have R11: "10 ^ 9 / 2 ^ 65 \<le> \<bar>R1\<bar>" and R12: "\<bar>R1\<bar> \<le> 4 * 10 ^ 9"
    using R1b a1 a2 by simp_all
  have cc: "\<bar>c\<bar> = 10 ^ 9 * \<bar>R1\<bar>"
    by (simp add: c_def abs_mult)
  have ct: "2 powi (- 1022) \<le> \<bar>c\<bar>"
    unfolding cc by (rule order_trans [OF tiny]) (use R11 in simp)
  note R2b = round_double_abs_bounds [OF ct, folded R2_def]
  have R22: "\<bar>R2\<bar> \<le> 8 * 10 ^ 18"
    using R2b(2) R12 unfolding cc by simp
  have Pd: "double_of_long_long p = P"
    by (simp add: double_of_long_long_def x_def P_def)
  have f1: "fdiv (double_of_long_long BILLION) (double_of_long_long p) = Some R1"
  proof -
    have "P \<noteq> 0"
      using Ppos by simp
    moreover have "\<bar>R1\<bar> < 2 ^ 1024"
      using R12 by simp
    then have "finite_double R1 = Some R1"
      by (rule finite_double_bounded)
    ultimately show ?thesis
      unfolding double_of_BILLION Pd fdiv_def a_def [symmetric] R1_def [symmetric] by simp
  qed
  have f2: "fmul (double_of_long_long BILLION) R1 = Some R2"
  proof -
    have "\<bar>R2\<bar> < 2 ^ 1024"
      using R22 by simp
    then have "finite_double R2 = Some R2"
      by (rule finite_double_bounded)
    then show ?thesis
      unfolding double_of_BILLION fmul_def c_def [symmetric] R2_def [symmetric] by simp
  qed
  note ch = period_chain [OF x1 Pb R1b [unfolded a_def] R2b [unfolded c_def]]
  have pos: "0 < R2" if "0 < p"
  proof -
    from that have "0 < x"
      by (simp add: x_def)
    then have "2 powi (- 1022) \<le> x"
      using xt by simp
    then have "0 < P"
      unfolding P_def by (rule round_double_pos)
    then have "0 < a"
      by (simp add: a_def)
    then have "2 powi (- 1022) \<le> a"
      using at by simp
    then have "0 < R1"
      unfolding R1_def by (rule round_double_pos)
    then have "0 < c"
      by (simp add: c_def)
    then have "2 powi (- 1022) \<le> c"
      using ct by simp
    then show "0 < R2"
      unfolding R2_def by (rule round_double_pos)
  qed
  have neg: "R2 < 0" if "p < 0"
  proof -
    from that have "x < 0"
      by (simp add: x_def)
    then have "x \<le> - (2 powi (- 1022))"
      using xt by simp
    then have "P < 0"
      unfolding P_def by (rule round_double_neg)
    then have "a < 0"
      by (simp add: a_def divide_neg_pos divide_pos_neg)
    then have "a \<le> - (2 powi (- 1022))"
      using at by simp
    then have "R1 < 0"
      unfolding R1_def by (rule round_double_neg)
    then have "c < 0"
      by (simp add: c_def mult_pos_neg)
    then have "c \<le> - (2 powi (- 1022))"
      using ct by simp
    then show "R2 < 0"
      unfolding R2_def by (rule round_double_neg)
  qed
  show ?thesis
    using f1 f2 ch pos neg by (auto simp: x_def)
qed


lemma sdiv_drift_period:
  "d sdiv drift_period = (if 0 \<le> d then d div 61 else - ((- d) div 61))"
  by (simp add: signed_divide_int_def drift_period_def sgn_if)

lemma period_divisor_in_long_long:
  assumes "in_long_long d"
  shows "in_long_long (d sdiv drift_period + BILLION)"
proof -
  have "- (2 ^ 63) \<le> d" and "d < 2 ^ 63"
    using assms by (simp_all add: in_long_long_def LLONG_MAX_def LLONG_MIN_def)
  then have "- (2 ^ 62) \<le> d sdiv drift_period \<and> d sdiv drift_period \<le> 2 ^ 62"
    unfolding sdiv_drift_period by (simp split: if_splits) linarith+
  then show ?thesis
    by (simp add: in_long_long_def LLONG_MAX_def LLONG_MIN_def BILLION_def)
qed

lemma period_divisor_range:
  assumes "in_long_long d" and "- 61000000000 < d"
  shows "1 \<le> d sdiv drift_period + BILLION" and "d sdiv drift_period + BILLION \<le> 2 * 10 ^ 17"
proof -
  have d: "d < 2 ^ 63"
    using assms(1) by (simp add: in_long_long_def LLONG_MAX_def)
  have "- 999999999 \<le> d sdiv drift_period \<and> d sdiv drift_period \<le> 10 ^ 17 + 6 * 10 ^ 16"
    unfolding sdiv_drift_period using d assms(2) by (simp split: if_splits) linarith+
  then show "1 \<le> d sdiv drift_period + BILLION" and "d sdiv drift_period + BILLION \<le> 2 * 10 ^ 17"
    by (simp_all add: BILLION_def)
qed


lemma truncate_double_error: "\<bar>of_int (truncate_double x) - x\<bar> < 1"
proof (cases "0 \<le> x")
  case True
  have "of_int \<lfloor>x\<rfloor> \<le> x" and "x < of_int \<lfloor>x\<rfloor> + 1"
    by linarith+
  with True show ?thesis
    by (simp add: truncate_double_def)
next
  case False
  have "x \<le> of_int \<lceil>x\<rceil>" and "of_int \<lceil>x\<rceil> < x + 1"
    by linarith+
  with False show ?thesis
    by (simp add: truncate_double_def)
qed

lemma double_product:
  assumes "(case fdiv (double_of_long_long BILLION) (double_of_long_long p) of
              None \<Rightarrow> None
            | Some r \<Rightarrow> fmul (double_of_long_long BILLION) r) = Some R"
  shows "R = round_double (10 ^ 9 * round_double (10 ^ 9 / round_double (of_int p)))"
  using assms unfolding double_of_BILLION
  by (auto simp: fdiv_def fmul_def finite_double_def double_of_long_long_def
      split: option.splits if_splits)

lemma drift_server_sec_estimate:
  fixes skew_now skew_prev :: int
  defines "p \<equiv> (skew_now - skew_prev) sdiv drift_period + BILLION"
  assumes r: "in_long_long (skew_now - skew_prev)" and z: "p \<noteq> 0"
  shows "\<exists>R. drift_server_sec skew_now skew_prev = Some (truncate_double R)
           \<and> \<bar>R - 10 ^ 18 / of_int p\<bar> \<le> \<bar>10 ^ 18 / of_int p\<bar> / 2 ^ 51
           \<and> (0 < p \<longrightarrow> 0 < R)
           \<and> \<bar>truncate_double R\<bar> \<le> 2 * 10 ^ 18
           \<and> R = round_double (10 ^ 9 * round_double (10 ^ 9 / round_double (of_int p)))"
proof -
  define E :: rat where "E = 10 ^ 18 / of_int p"
  have pr: "in_long_long p"
    unfolding p_def using r by (rule period_divisor_in_long_long)
  from double_period [OF z pr] obtain R
    where f: "(case fdiv (double_of_long_long BILLION) (double_of_long_long p) of
                 None \<Rightarrow> None
               | Some r \<Rightarrow> fmul (double_of_long_long BILLION) r) = Some R"
      and lo: "\<bar>E\<bar> * (1 - 1 / 2 ^ 51) \<le> \<bar>R\<bar>"
      and up: "\<bar>R\<bar> \<le> \<bar>E\<bar> * (1 + 1 / 2 ^ 51)"
      and pos: "0 < p \<longrightarrow> 0 < R" and neg: "p < 0 \<longrightarrow> R < 0"
    unfolding E_def by blast
  have l: "\<bar>E\<bar> * (1 - 1 / 2 ^ 51) = \<bar>E\<bar> - \<bar>E\<bar> / 2 ^ 51"
    and u: "\<bar>E\<bar> * (1 + 1 / 2 ^ 51) = \<bar>E\<bar> + \<bar>E\<bar> / 2 ^ 51"
    by (simp_all add: algebra_simps)
  have close: "\<bar>R - E\<bar> \<le> \<bar>E\<bar> / 2 ^ 51"
  proof (cases "0 < p")
    case True
    then have "0 < E"
      by (simp add: E_def)
    moreover have "0 < R"
      using True pos by simp
    ultimately show ?thesis
      using lo up unfolding l u by linarith
  next
    case False
    then have "p < 0"
      using z by simp
    then have "E < 0"
      by (simp add: E_def divide_pos_neg)
    moreover have "R < 0"
      using \<open>p < 0\<close> neg by simp
    ultimately show ?thesis
      using lo up unfolding l u by linarith
  qed
  have "1 \<le> \<bar>p\<bar>"
    using z by simp
  then have "(of_int 1 :: rat) \<le> of_int \<bar>p\<bar>"
    by (simp only: of_int_le_iff)
  then have "1 \<le> \<bar>of_int p :: rat\<bar>"
    by simp
  then have "\<bar>E\<bar> \<le> 10 ^ 18"
    unfolding E_def abs_divide by (simp add: field_simps)
  then have "\<bar>R\<bar> \<le> 2 * 10 ^ 18"
    using up unfolding u by simp
  moreover have "\<bar>of_int (truncate_double R)\<bar> \<le> \<bar>R\<bar>"
    by (rule truncate_double_abs_le)
  ultimately have "\<bar>of_int (truncate_double R) :: rat\<bar> \<le> of_int (2 * 10 ^ 18)"
    by simp
  then have "\<bar>truncate_double R\<bar> \<le> 2 * 10 ^ 18"
    unfolding of_int_abs [symmetric] by (simp only: of_int_le_iff)
  then have big: "\<bar>truncate_double R\<bar> \<le> 2 * 10 ^ 18" .
  then have t: "in_long_long (truncate_double R)"
    unfolding in_long_long_def LLONG_MAX_def LLONG_MIN_def by (simp add: abs_le_iff)
  have "drift_server_sec skew_now skew_prev = Some (truncate_double R)"
    using r pr f t unfolding drift_server_sec_def Let_def p_def [symmetric]
    by (simp add: long_long_of_double_def)
  moreover have "R = round_double (10 ^ 9 * round_double (10 ^ 9 / round_double (of_int p)))"
    using f by (rule double_product)
  ultimately show ?thesis
    using close pos big unfolding E_def by blast
qed

section \<open>Properties of the period estimate and of the handlers\<close>

lemma resetTimer_timers:
  "timers (resetTimer ok tid T t st) =
     (if ok
      then (timers st)(tid := Some \<lparr>it_interval = \<lparr>tv_sec = int_of_long_long (t sdiv BILLION),
                                   tv_nsec = int_of_long_long (t smod BILLION)\<rparr>, it_value = T\<rparr>)
      else timers st)"
  by (simp add: resetTimer_def)

lemma resetTimer_others [simp]:
  "count (resetTimer ok tid T t st) = count st"
  "fSync (resetTimer ok tid T t st) = fSync st"
  "fDrift (resetTimer ok tid T t st) = fDrift st"
  "T_skew_prev (resetTimer ok tid T t st) = T_skew_prev st"
  "T_skew_now (resetTimer ok tid T t st) = T_skew_now st"
  "T_trig_n (resetTimer ok tid T t st) = T_trig_n st"
  "T_sync_n (resetTimer ok tid T t st) = T_sync_n st"
  "T_drift_n (resetTimer ok tid T t st) = T_drift_n st"
  "server_sec (resetTimer ok tid T t st) = server_sec st"
  "TI (resetTimer ok tid T t st) = TI st"
  "kernel_id (resetTimer ok tid T t st) = kernel_id st"
  by (simp_all add: resetTimer_def)

lemma drift_handling_Inr:
  assumes "drift_handling env st = Inr st'"
  obtains ti sec t_sync where
    "get_skew_reply env = Some ti"
    and "drift_server_sec (T_skew_n ti) (T_skew_now st) = Some sec"
    and "expiry_time (T_sync_n st) sync_period sec = Some t_sync"
    and "server_sec st' = sec"
    and "T_trig_n st' = T_trig_n st + (drift_period + 1) * sec"
    and "T_sync_n st' = t_sync"
    and "T_skew_prev st' = T_skew_now st"
    and "T_skew_now st' = T_skew_n ti"
    and "count st' = 0"
    and "fDrift st' = 0"
    and "fSync st' = fSync st"
    and "timers st' cameraTimerID =
          (if drift_camera_ok env
           then Some \<lparr>it_interval = \<lparr>tv_sec = int_of_long_long (sec sdiv BILLION),
                                     tv_nsec = int_of_long_long (sec smod BILLION)\<rparr>,
                      it_value = as_timespec (T_trig_n st + (drift_period + 1) * sec)\<rparr>
           else timers st cameraTimerID)"
    and "timers st' syncTimerID =
          (if drift_sync_ok env
           then Some \<lparr>it_interval = one_shot, it_value = as_timespec t_sync\<rparr>
           else timers st syncTimerID)"
    and "timers st' driftTimerID = timers st driftTimerID"
  using assms unfolding drift_handling_def Let_def
  by (auto split: option.splits if_splits
      simp: resetTimer_timers PERIOD_def one_shot_def int_of_long_long_def)


lemma drift_server_sec_SomeD:
  assumes "drift_server_sec a b = Some s"
  shows "in_long_long (a - b)" and "(a - b) sdiv drift_period + BILLION \<noteq> 0"
proof -
  show "in_long_long (a - b)"
    using assms by (simp add: drift_server_sec_def Let_def split: if_splits)
  show "(a - b) sdiv drift_period + BILLION \<noteq> 0"
  proof
    assume "(a - b) sdiv drift_period + BILLION = 0"
    then have "drift_server_sec a b = None"
      by (simp add: drift_server_sec_def Let_def double_of_long_long_def round_double_def
          fdiv_def long_long_of_double_def)
    with assms show False
      by simp
  qed
qed

lemma drift_server_sec_close:
  assumes "drift_server_sec a b = Some s"
  shows "\<bar>of_int s - 10 ^ 18 / of_int ((a - b) sdiv drift_period + BILLION)\<bar>
           < 1 + \<bar>10 ^ 18 / of_int ((a - b) sdiv drift_period + BILLION) :: rat\<bar> / 2 ^ 51"
    and "\<bar>s\<bar> \<le> 2 * 10 ^ 18"
proof -
  define E :: rat where "E = 10 ^ 18 / of_int ((a - b) sdiv drift_period + BILLION)"
  from drift_server_sec_estimate [OF drift_server_sec_SomeD [OF assms]] obtain R
    where R: "drift_server_sec a b = Some (truncate_double R)"
      and c: "\<bar>R - E\<bar> \<le> \<bar>E\<bar> / 2 ^ 51"
      and b: "\<bar>truncate_double R\<bar> \<le> 2 * 10 ^ 18"
    unfolding E_def by blast
  from R assms have s: "s = truncate_double R"
    by simp
  have "\<bar>of_int s - R\<bar> < 1"
    unfolding s by (rule truncate_double_error)
  with c have "\<bar>of_int s - E\<bar> < 1 + \<bar>E\<bar> / 2 ^ 51"
    by linarith
  then show "\<bar>of_int s - 10 ^ 18 / of_int ((a - b) sdiv drift_period + BILLION)\<bar>
           < 1 + \<bar>10 ^ 18 / of_int ((a - b) sdiv drift_period + BILLION) :: rat\<bar> / 2 ^ 51"
    by (simp only: E_def)
  show "\<bar>s\<bar> \<le> 2 * 10 ^ 18"
    using b by (simp only: s)
qed

lemma drift_server_sec_positive:
  assumes r: "in_long_long (a - b)" and d: "- 61000000000 < a - b"
  shows "\<exists>s. drift_server_sec a b = Some s \<and> 0 < s"
proof -
  define p where "p = (a - b) sdiv drift_period + BILLION"
  define E :: rat where "E = 10 ^ 18 / of_int p"
  from period_divisor_range [OF r d] have p1: "1 \<le> p" and p2: "p \<le> 2 * 10 ^ 17"
    by (simp_all add: p_def)
  then have z: "(a - b) sdiv drift_period + BILLION \<noteq> 0" and pp: "0 < p"
    by (simp_all add: p_def)
  from drift_server_sec_estimate [OF r z] obtain R
    where R: "drift_server_sec a b = Some (truncate_double R)"
      and c: "\<bar>R - E\<bar> \<le> \<bar>E\<bar> / 2 ^ 51"
      and pos: "0 < R"
    using pp unfolding E_def p_def by blast
  have "(of_int p :: rat) \<le> of_int (2 * 10 ^ 17)"
    using p2 by (simp only: of_int_le_iff)
  moreover have "(0::rat) < of_int p"
    using pp by simp
  ultimately have "5 \<le> E"
    unfolding E_def by (simp add: pos_le_divide_eq)
  then have "4 \<le> R"
    using c by (simp add: abs_if split: if_splits)
  then have "4 \<le> truncate_double R"
    by (simp add: truncate_double_def le_floor_iff)
  with R show ?thesis
    by simp
qed

lemma drift_server_sec_same: "drift_server_sec a a = Some 1000000000"
proof -
  have "drift_server_sec a a = drift_server_sec 0 0"
    by (simp add: drift_server_sec_def)
  also have "\<dots> = Some 1000000000"
    by code_simp
  finally show ?thesis .
qed

lemma drift_server_sec_61000: "drift_server_sec (a + 61000) a = Some 999999000"
proof -
  have "drift_server_sec (a + 61000) a = drift_server_sec 61000 0"
    by (simp add: drift_server_sec_def)
  also have "\<dots> = Some 999999000"
    by code_simp
  finally show ?thesis .
qed

lemma drift_server_sec_60: "drift_server_sec (a + 60) a = Some 1000000000"
proof -
  have "drift_server_sec (a + 60) a = drift_server_sec 60 0"
    by (simp add: drift_server_sec_def)
  also have "\<dots> = Some 1000000000"
    by code_simp
  finally show ?thesis .
qed

lemma drift_server_sec_1830000: "drift_server_sec (a + 1830000) a = Some 999970000"
proof -
  have "drift_server_sec (a + 1830000) a = drift_server_sec 1830000 0"
    by (simp add: drift_server_sec_def)
  also have "\<dots> = Some 999970000"
    by code_simp
  finally show ?thesis .
qed

lemma drift_server_sec_value:
  assumes "drift_server_sec a b = Some s"
  shows "s = truncate_double
               (round_double (10 ^ 9 * round_double (10 ^ 9 /
                  round_double (of_int ((a - b) sdiv drift_period + BILLION)))))"
    and "\<bar>round_double (10 ^ 9 * round_double (10 ^ 9 /
            round_double (of_int ((a - b) sdiv drift_period + BILLION))))
          - 10 ^ 18 / of_int ((a - b) sdiv drift_period + BILLION)\<bar>
         \<le> \<bar>10 ^ 18 / of_int ((a - b) sdiv drift_period + BILLION) :: rat\<bar> / 2 ^ 51"
proof -
  from drift_server_sec_estimate [OF drift_server_sec_SomeD [OF assms]] obtain R
    where R: "drift_server_sec a b = Some (truncate_double R)"
      and c: "\<bar>R - 10 ^ 18 / of_int ((a - b) sdiv drift_period + BILLION)\<bar>
               \<le> \<bar>10 ^ 18 / of_int ((a - b) sdiv drift_period + BILLION)\<bar> / 2 ^ 51"
      and v: "R = round_double (10 ^ 9 * round_double (10 ^ 9 /
                     round_double (of_int ((a - b) sdiv drift_period + BILLION))))"
    by blast
  from R assms show "s = truncate_double
               (round_double (10 ^ 9 * round_double (10 ^ 9 /
                  round_double (of_int ((a - b) sdiv drift_period + BILLION)))))"
    unfolding v by simp
  from c show "\<bar>round_double (10 ^ 9 * round_double (10 ^ 9 /
            round_double (of_int ((a - b) sdiv drift_period + BILLION))))
          - 10 ^ 18 / of_int ((a - b) sdiv drift_period + BILLION)\<bar>
         \<le> \<bar>10 ^ 18 / of_int ((a - b) sdiv drift_period + BILLION) :: rat\<bar> / 2 ^ 51"
    unfolding v .
qed

lemma drift_server_sec_nominal_range:
  assumes "\<bar>a - b\<bar> \<le> 6100000000"
  shows "\<exists>s. drift_server_sec a b = Some s \<and> 0 < s \<and> s \<le> 1200000000"
proof -
  define p where "p = (a - b) sdiv drift_period + BILLION"
  define E :: rat where "E = 10 ^ 18 / of_int p"
  have r: "in_long_long (a - b)"
    using assms by (simp add: in_long_long_def LLONG_MAX_def LLONG_MIN_def abs_le_iff)
  have d: "- 61000000000 < a - b"
    using assms by linarith
  from drift_server_sec_positive [OF r d] obtain s
    where s: "drift_server_sec a b = Some s" and pos: "0 < s"
    by blast
  have "- 100000000 \<le> (a - b) sdiv drift_period"
    unfolding sdiv_drift_period using assms by (simp split: if_splits) linarith+
  then have p: "900000000 \<le> p"
    by (simp add: p_def BILLION_def)
  then have "(of_int 900000000 :: rat) \<le> of_int p"
    by (simp only: of_int_le_iff)
  then have p': "(900000000 :: rat) \<le> of_int p"
    by simp
  then have "0 < E"
    by (simp add: E_def)
  moreover have "E \<le> 1120000000"
    unfolding E_def using p' by (simp add: pos_divide_le_eq)
  moreover have "\<bar>of_int s - E\<bar> < 1 + \<bar>E\<bar> / 2 ^ 51"
    using drift_server_sec_close(1) [OF s] unfolding E_def p_def .
  ultimately have "(of_int s :: rat) < of_int 1200000000"
    by (simp add: abs_if split: if_splits)
  then have "s < 1200000000"
    by (simp only: of_int_less_iff)
  with s pos show ?thesis
    by simp
qed

lemma drift_handling_completes:
  assumes "get_skew_reply env = Some ti"
    and "\<bar>T_skew_n ti - T_skew_now st\<bar> \<le> 6100000000"
    and "0 \<le> T_trig_n st" and "T_trig_n st \<le> 2 ^ 62"
    and "0 \<le> T_sync_n st" and "T_sync_n st \<le> 2 ^ 62"
  shows "\<exists>st'. drift_handling env st = Inr st'"
proof -
  from drift_server_sec_nominal_range [OF assms(2)] obtain s
    where s: "drift_server_sec (T_skew_n ti) (T_skew_now st) = Some s"
      and pos: "0 < s" and up: "s \<le> 1200000000"
    by blast
  have "0 \<le> s sdiv OFFSET" and "s sdiv OFFSET \<le> s"
    using pos by (simp_all add: OFFSET_def signed_divide_int_def sgn_if)
  then have "\<exists>t. expiry_time (T_sync_n st) sync_period s = Some t"
    using pos up assms(5,6)
    by (simp add: expiry_time_def Let_def sync_period_def in_long_long_def LLONG_MAX_def
        LLONG_MIN_def)
  then obtain t where t: "expiry_time (T_sync_n st) sync_period s = Some t"
    by blast
  have "in_long_long ((drift_period + 1) * s)"
    and "in_long_long (T_trig_n st + (drift_period + 1) * s)"
    using pos up assms(3,4)
    by (simp_all add: drift_period_def in_long_long_def LLONG_MAX_def LLONG_MIN_def)
  then show ?thesis
    using assms(1) s t by (simp add: drift_handling_def Let_def)
qed

lemma admissible_delta_iff: "admissible_delta d \<longleftrightarrow> - 61000000000 < d"
proof -
  have "- (10 ^ 9) < (of_int d :: rat) / 61 \<longleftrightarrow> (of_int (- 61000000000) :: rat) < of_int d"
    by (simp add: field_simps)
  also have "\<dots> \<longleftrightarrow> - 61000000000 < d"
    by (simp only: of_int_less_iff)
  finally show ?thesis
    by (simp add: admissible_delta_def drift_period_def)
qed

lemma sync_handling_Inr:
  assumes "sync_handling env st = Inr st'"
  obtains ti t_drift where
    "synchronize_reply env = Some ti"
    and "expiry_time (T_start_n ti) drift_period (server_sec st) = Some t_drift"
    and "server_sec st' = server_sec st"
    and "T_trig_n st' = T_start_n ti"
    and "T_sync_n st' = T_start_n ti"
    and "T_drift_n st' = t_drift"
    and "T_skew_now st' = T_skew_n ti"
    and "T_skew_prev st' = T_skew_prev st"
    and "count st' = 0"
    and "fSync st' = 0"
    and "fDrift st' = fDrift st"
    and "timers st' cameraTimerID =
          (if sync_camera_ok env
           then Some \<lparr>it_interval = \<lparr>tv_sec = int_of_long_long (server_sec st sdiv BILLION),
                                     tv_nsec = int_of_long_long (server_sec st smod BILLION)\<rparr>,
                      it_value = as_timespec (T_start_n ti)\<rparr>
           else timers st cameraTimerID)"
    and "timers st' driftTimerID =
          (if sync_drift_ok env
           then Some \<lparr>it_interval = one_shot, it_value = as_timespec t_drift\<rparr>
           else timers st driftTimerID)"
    and "timers st' syncTimerID = timers st syncTimerID"
  using assms unfolding sync_handling_def Let_def
  by (auto split: option.splits if_splits
      simp: resetTimer_timers PERIOD_def one_shot_def int_of_long_long_def)

lemma makeTimer_timers:
  "timers (snd (makeTimer sys name tid T s ns st)) =
     (if succeed sys
      then (timers st)(tid := Some \<lparr>it_interval = \<lparr>tv_sec = s, tv_nsec = ns\<rparr>, it_value = T\<rparr>)
      else timers st)"
  by (simp add: makeTimer_def succeed_def Let_def)

lemma makeTimer_kernel_id:
  "kernel_id (snd (makeTimer sys name tid T s ns st)) =
     (if sigaction_ok sys \<and> timer_create_ok sys then (kernel_id st)(tid := new_timer_id sys)
      else kernel_id st)"
  by (simp add: makeTimer_def Let_def)

lemma makeTimer_others [simp]:
  "count (snd (makeTimer sys name tid T s ns st)) = count st"
  "fSync (snd (makeTimer sys name tid T s ns st)) = fSync st"
  "fDrift (snd (makeTimer sys name tid T s ns st)) = fDrift st"
  "T_skew_prev (snd (makeTimer sys name tid T s ns st)) = T_skew_prev st"
  "T_skew_now (snd (makeTimer sys name tid T s ns st)) = T_skew_now st"
  "T_trig_n (snd (makeTimer sys name tid T s ns st)) = T_trig_n st"
  "T_sync_n (snd (makeTimer sys name tid T s ns st)) = T_sync_n st"
  "T_drift_n (snd (makeTimer sys name tid T s ns st)) = T_drift_n st"
  "server_sec (snd (makeTimer sys name tid T s ns st)) = server_sec st"
  "TI (snd (makeTimer sys name tid T s ns st)) = TI st"
  "log_name (snd (makeTimer sys name tid T s ns st)) = log_name st"
  by (simp_all add: makeTimer_def Let_def)

lemma setup_m_fields [simp]:
  "count (setup_m i st) = count st"
  "fSync (setup_m i st) = fSync st"
  "fDrift (setup_m i st) = fDrift st"
  "T_skew_prev (setup_m i st) = T_skew_prev st"
  "T_skew_now (setup_m i st) = T_skew_now st"
  "server_sec (setup_m i st) = server_sec st"
  "timers (setup_m i st) = timers st"
  "log_name (setup_m i st) = (if i = - 1 then log_name st else Some ''changeme.csv'')"
  by (simp_all add: setup_m_def)

lemma arm_trigger_fields [simp]:
  "count (arm_trigger sys st) = count st"
  "fSync (arm_trigger sys st) = fSync st"
  "fDrift (arm_trigger sys st) = fDrift st"
  "T_skew_prev (arm_trigger sys st) = T_skew_prev st"
  "T_skew_now (arm_trigger sys st) = T_skew_n (TI st)"
  "T_trig_n (arm_trigger sys st) = T_start_n (TI st)"
  "server_sec (arm_trigger sys st) = server_sec st"
  "TI (arm_trigger sys st) = TI st"
  "log_name (arm_trigger sys st) = log_name st"
  "timers (arm_trigger sys st) =
     (if succeed sys
      then (timers st)(cameraTimerID :=
             Some \<lparr>it_interval = \<lparr>tv_sec = PERIOD, tv_nsec = 0\<rparr>,
                   it_value = as_timespec (T_start_n (TI st))\<rparr>)
      else timers st)"
  by (simp_all add: arm_trigger_def Let_def case_prod_unfold makeTimer_timers)

lemma arm_drift_Some:
  assumes "arm_drift sys st = Some st'"
  obtains t_drift where
    "expiry_time (T_trig_n st) drift_period (server_sec st) = Some t_drift"
    and "count st' = count st" and "fSync st' = fSync st" and "fDrift st' = fDrift st"
    and "T_skew_prev st' = T_skew_prev st" and "T_skew_now st' = T_skew_now st"
    and "T_trig_n st' = T_trig_n st" and "T_drift_n st' = t_drift"
    and "server_sec st' = server_sec st" and "TI st' = TI st" and "log_name st' = log_name st"
    and "timers st' =
          (if succeed sys
           then (timers st)(driftTimerID :=
                  Some \<lparr>it_interval = \<lparr>tv_sec = 0, tv_nsec = 0\<rparr>,
                        it_value = as_timespec t_drift\<rparr>)
           else timers st)"
  using assms unfolding arm_drift_def Let_def case_prod_unfold
  by (auto split: option.splits simp: makeTimer_timers)

lemma arm_sync_Some:
  assumes "arm_sync sys st = Some st'"
  obtains t_sync where
    "expiry_time (T_trig_n st) sync_period (server_sec st) = Some t_sync"
    and "count st' = count st" and "fSync st' = fSync st" and "fDrift st' = fDrift st"
    and "T_skew_prev st' = T_skew_prev st" and "T_skew_now st' = T_skew_now st"
    and "T_trig_n st' = T_trig_n st" and "T_sync_n st' = T_trig_n st"
    and "T_drift_n st' = T_drift_n st"
    and "server_sec st' = server_sec st" and "TI st' = TI st" and "log_name st' = log_name st"
    and "timers st' =
          (if succeed sys
           then (timers st)(syncTimerID :=
                  Some \<lparr>it_interval = \<lparr>tv_sec = 0, tv_nsec = 0\<rparr>,
                        it_value = as_timespec t_sync\<rparr>)
           else timers st)"
  using assms unfolding arm_sync_def Let_def case_prod_unfold
  by (auto split: option.splits simp: makeTimer_timers)

lemma startup_Inr:
  assumes "startup env = Inr st"
  obtains ti t_drift t_sync where
    "initial_sync_reply env = Some ti"
    and "expiry_time (T_start_n ti) drift_period BILLION = Some t_drift"
    and "expiry_time (T_start_n ti) sync_period BILLION = Some t_sync"
    and "server_sec st = BILLION"
    and "T_trig_n st = T_start_n ti"
    and "T_sync_n st = T_start_n ti"
    and "T_drift_n st = t_drift"
    and "T_skew_now st = T_skew_n ti"
    and "T_skew_prev st = 0"
    and "count st = 0"
    and "fSync st = 0"
    and "fDrift st = 0"
    and "timers st cameraTimerID =
          (if succeed (trigger_sys env)
           then Some \<lparr>it_interval = \<lparr>tv_sec = 1, tv_nsec = 0\<rparr>,
                      it_value = as_timespec (T_start_n ti)\<rparr>
           else None)"
    and "timers st driftTimerID =
          (if succeed (drift_sys env)
           then Some \<lparr>it_interval = one_shot, it_value = as_timespec t_drift\<rparr>
           else None)"
    and "timers st syncTimerID =
          (if succeed (sync_sys env)
           then Some \<lparr>it_interval = one_shot, it_value = as_timespec t_sync\<rparr>
           else None)"
    and "log_name st = (if init_reply env = - 1 then None else Some ''changeme.csv'')"
proof -
  define st1 where "st1 = setup_m (init_reply env) initial_state"
  from assms obtain ti where r: "initial_sync_reply env = Some ti"
    unfolding startup_def Let_def by (cases "initial_sync_reply env") simp_all
  define st2 where "st2 = arm_trigger (trigger_sys env) (st1\<lparr>TI := ti\<rparr>)"
  from assms r obtain st3 where a3: "arm_drift (drift_sys env) st2 = Some st3"
    and a4: "arm_sync (sync_sys env) st3 = Some st"
    unfolding startup_def Let_def st2_def st1_def by (auto split: option.splits)
  have i: "server_sec st1 = BILLION" "T_skew_prev st1 = 0" "count st1 = 0" "fSync st1 = 0"
    "fDrift st1 = 0" "timers st1 = (\<lambda>_. None)"
    "log_name st1 = (if init_reply env = - 1 then None else Some ''changeme.csv'')"
    by (simp_all add: st1_def initial_state_def)
  from a3 obtain t_drift where
    d: "expiry_time (T_trig_n st2) drift_period (server_sec st2) = Some t_drift"
    and f3: "count st3 = count st2" "fSync st3 = fSync st2" "fDrift st3 = fDrift st2"
      "T_skew_prev st3 = T_skew_prev st2" "T_skew_now st3 = T_skew_now st2"
      "T_trig_n st3 = T_trig_n st2" "T_drift_n st3 = t_drift"
      "server_sec st3 = server_sec st2" "TI st3 = TI st2" "log_name st3 = log_name st2"
    and t3: "timers st3 =
          (if succeed (drift_sys env)
           then (timers st2)(driftTimerID :=
                  Some \<lparr>it_interval = \<lparr>tv_sec = 0, tv_nsec = 0\<rparr>,
                        it_value = as_timespec t_drift\<rparr>)
           else timers st2)"
    by (rule arm_drift_Some)
  from a4 obtain t_sync where
    s: "expiry_time (T_trig_n st3) sync_period (server_sec st3) = Some t_sync"
    and f4: "count st = count st3" "fSync st = fSync st3" "fDrift st = fDrift st3"
      "T_skew_prev st = T_skew_prev st3" "T_skew_now st = T_skew_now st3"
      "T_trig_n st = T_trig_n st3" "T_sync_n st = T_trig_n st3"
      "T_drift_n st = T_drift_n st3"
      "server_sec st = server_sec st3" "TI st = TI st3" "log_name st = log_name st3"
    and t4: "timers st =
          (if succeed (sync_sys env)
           then (timers st3)(syncTimerID :=
                  Some \<lparr>it_interval = \<lparr>tv_sec = 0, tv_nsec = 0\<rparr>,
                        it_value = as_timespec t_sync\<rparr>)
           else timers st3)"
    by (rule arm_sync_Some)
  show ?thesis
  proof (rule that [OF r])
    show "expiry_time (T_start_n ti) drift_period BILLION = Some t_drift"
      using d by (simp add: st2_def i)
    show "expiry_time (T_start_n ti) sync_period BILLION = Some t_sync"
      using s by (simp add: f3 st2_def i)
  qed (simp_all add: f4 f3 t4 t3 st2_def i PERIOD_def one_shot_def)
qed

lemma startup_server_sec:
  assumes "startup env = Inr st"
  shows "server_sec st = BILLION"
  using assms by (rule startup_Inr)

section \<open>Properties of signal delivery\<close>

text \<open>
  Handlers leave the variables of \<open>same_locals\<close> alone, so a cycle during which signals are
  delivered computes the same values for them as the cycle without signals
  (\<open>interrupted_cycle_locals\<close>); and the statements taken one by one, with no signal, make up
  \<open>sync_handling\<close>, \<open>drift_handling\<close> and \<open>loop_body\<close> (\<open>exec_sync_lines\<close>, \<open>exec_drift_lines\<close>,
  \<open>interrupted_body_plain\<close>).
\<close>

lemma triggerCamera_Inr:
  assumes "triggerCamera clock st = Inr st'"
  shows "count st' = count st + 1" and "fSync st' = fSync st" and "fDrift st' = fDrift st"
    and "timers st' = timers st" and "server_sec st' = server_sec st"
    and "kernel_id st' = kernel_id st" and "same_locals st' st"
  using assms by (auto simp: triggerCamera_def Let_def same_locals_def split: if_splits)

lemma timer_handler_Inr:
  assumes "timer_handler tidp clock st = Inr st'"
  shows "count st' =
          (if kernel_id st tidp = kernel_id st cameraTimerID then count st + 1 else count st)"
    and "fSync st' =
          (if kernel_id st tidp \<noteq> kernel_id st cameraTimerID
              \<and> kernel_id st tidp = kernel_id st syncTimerID then 1 else fSync st)"
    and "fDrift st' =
          (if kernel_id st tidp \<noteq> kernel_id st cameraTimerID
              \<and> kernel_id st tidp \<noteq> kernel_id st syncTimerID
              \<and> kernel_id st tidp = kernel_id st driftTimerID then 1 else fDrift st)"
    and "timers st' = timers st" and "kernel_id st' = kernel_id st" and "same_locals st' st"
  using assms unfolding timer_handler_def
  by (auto dest: triggerCamera_Inr simp: same_locals_def split: if_splits)

lemma expire_Inr_all:
  assumes "expire tid clock st = Inr st'"
  shows "count st' = (if triggers_camera tid st then count st + 1 else count st)
    \<and> fSync st' =
          (if timers st tid \<noteq> None \<and> kernel_id st tid \<noteq> kernel_id st cameraTimerID
              \<and> kernel_id st tid = kernel_id st syncTimerID then 1 else fSync st)
    \<and> fDrift st' =
          (if timers st tid \<noteq> None \<and> kernel_id st tid \<noteq> kernel_id st cameraTimerID
              \<and> kernel_id st tid \<noteq> kernel_id st syncTimerID
              \<and> kernel_id st tid = kernel_id st driftTimerID then 1 else fDrift st)
    \<and> timers st' =
          (case timers st tid of
             None \<Rightarrow> timers st
           | Some setting \<Rightarrow>
               if it_interval setting = one_shot then (timers st)(tid := None) else timers st)
    \<and> kernel_id st' = kernel_id st \<and> same_locals st' st"
proof (cases "timers st tid")
  case None
  with assms show ?thesis
    by (simp add: expire_def triggers_camera_def same_locals_def)
next
  case (Some setting)
  define b where
    "b = (if it_interval setting = one_shot then st\<lparr>timers := (timers st)(tid := None)\<rparr> else st)"
  have h: "timer_handler tid clock b = Inr st'"
    using assms Some by (simp add: expire_def b_def)
  have f: "count b = count st" "fSync b = fSync st" "fDrift b = fDrift st"
    "kernel_id b = kernel_id st" "same_locals b st"
    "timers b = (if it_interval setting = one_shot then (timers st)(tid := None) else timers st)"
    by (simp_all add: b_def same_locals_def)
  from timer_handler_Inr [OF h] f Some show ?thesis
    by (simp add: triggers_camera_def same_locals_def)
qed

lemma expire_Inr:
  assumes "expire tid clock st = Inr st'"
  shows "count st' = (if triggers_camera tid st then count st + 1 else count st)"
    and "fSync st' =
          (if timers st tid \<noteq> None \<and> kernel_id st tid \<noteq> kernel_id st cameraTimerID
              \<and> kernel_id st tid = kernel_id st syncTimerID then 1 else fSync st)"
    and "fDrift st' =
          (if timers st tid \<noteq> None \<and> kernel_id st tid \<noteq> kernel_id st cameraTimerID
              \<and> kernel_id st tid \<noteq> kernel_id st syncTimerID
              \<and> kernel_id st tid = kernel_id st driftTimerID then 1 else fDrift st)"
    and "timers st' =
          (case timers st tid of
             None \<Rightarrow> timers st
           | Some setting \<Rightarrow>
               if it_interval setting = one_shot then (timers st)(tid := None) else timers st)"
    and "kernel_id st' = kernel_id st" and "same_locals st' st"
  using expire_Inr_all [OF assms] by simp_all

lemma expire_server_sec:
  assumes "expire tid clock st = Inr st'"
  shows "server_sec st' = server_sec st"
  using expire_Inr(6) [OF assms] by (simp add: same_locals_def)

lemma deliver_invariant:
  assumes "deliver sigs st = Inr st'" and "P st"
    and "\<And>tid clock s s'. P s \<Longrightarrow> expire tid clock s = Inr s' \<Longrightarrow> P s'"
  shows "P st'"
  using assms(1,2)
proof (induction sigs arbitrary: st)
  case Nil
  then show ?case
    by simp
next
  case (Cons sg sigs)
  obtain tid clock where sg: "sg = (tid, clock)"
    by (cases sg)
  from Cons.prems(1) obtain st1 where x: "expire tid clock st = Inr st1"
    and d: "deliver sigs st1 = Inr st'"
    unfolding sg by (auto split: sum.splits)
  have "P st1"
    using Cons.prems(2) x by (rule assms(3))
  with d show ?case
    by (rule Cons.IH)
qed

lemma exec_invariant:
  assumes "exec sigs env ls st = Inr st'" and "P st"
    and "\<And>tid clock s s'. P s \<Longrightarrow> expire tid clock s = Inr s' \<Longrightarrow> P s'"
    and "\<And>l s s'. l \<in> set ls \<Longrightarrow> P s \<Longrightarrow> statement env l s = Inr s' \<Longrightarrow> P s'"
  shows "P st'"
  using assms(1,2,4)
proof (induction ls arbitrary: st)
  case Nil
  then show ?case
    by simp
next
  case (Cons l ls)
  from Cons.prems(1) obtain st1 st2 where d: "deliver (sigs l) st = Inr st1"
    and c: "statement env l st1 = Inr st2" and r: "exec sigs env ls st2 = Inr st'"
    by (auto split: sum.splits)
  have "P st1"
    using d Cons.prems(2) assms(3) by (rule deliver_invariant)
  then have "P st2"
    using c Cons.prems(3) [of l st1 st2] by simp
  with r show ?case
  proof (rule Cons.IH)
    fix m s s'
    assume "m \<in> set ls" and "P s" and "statement env m s = Inr s'"
    then show "P s'"
      using Cons.prems(3) [of m s s'] by simp
  qed
qed

lemma exec_append:
  "exec sigs env (xs @ ys) st =
     (case exec sigs env xs st of Inl h \<Rightarrow> Inl h | Inr st1 \<Rightarrow> exec sigs env ys st1)"
  by (induction xs arbitrary: st) (auto split: sum.splits)

lemma same_locals_refl [simp]: "same_locals s s"
  by (simp add: same_locals_def)

lemma same_locals_trans: "same_locals s t \<Longrightarrow> same_locals t u \<Longrightarrow> same_locals s u"
  by (simp add: same_locals_def)

lemma same_locals_sym: "same_locals s t \<Longrightarrow> same_locals t s"
  by (simp add: same_locals_def)

lemma deliver_same_locals:
  assumes "deliver sigs st = Inr st'"
  shows "same_locals st' st"
proof -
  have "same_locals st st"
    by simp
  with assms show ?thesis
    by (rule deliver_invariant [where P = "\<lambda>s. same_locals s st"])
      (blast intro: same_locals_trans expire_Inr(6))
qed

lemma statement_same_locals:
  assumes "statement env l s = Inr s'" and "same_locals s t"
  shows "\<exists>t'. statement env l t = Inr t' \<and> same_locals s' t'"
  using assms
  by (cases l) (auto simp: same_locals_def Let_def split: option.splits if_splits)

lemma exec_same_locals:
  assumes "exec sigs env ls s = Inr s'" and "same_locals s t"
  shows "\<exists>t'. exec (\<lambda>_. []) env ls t = Inr t' \<and> same_locals s' t'"
  using assms
proof (induction ls arbitrary: s t)
  case Nil
  then show ?case
    by simp
next
  case (Cons l ls)
  from Cons.prems(1) obtain s1 s2 where d: "deliver (sigs l) s = Inr s1"
    and c: "statement env l s1 = Inr s2" and r: "exec sigs env ls s2 = Inr s'"
    by (auto split: sum.splits)
  have "same_locals s1 t"
    using deliver_same_locals [OF d] Cons.prems(2) by (rule same_locals_trans)
  with c obtain t2 where c': "statement env l t = Inr t2" and e: "same_locals s2 t2"
    using statement_same_locals by blast
  from Cons.IH [OF r e] obtain t' where "exec (\<lambda>_. []) env ls t2 = Inr t'"
    and "same_locals s' t'"
    by blast
  with c' show ?case
    by simp
qed

lemma exec_sync_lines: "exec (\<lambda>_. []) env sync_lines st = sync_handling env st"
  by (simp add: sync_lines_def sync_handling_def Let_def split: option.splits)

lemma exec_drift_lines: "exec (\<lambda>_. []) env drift_lines st = drift_handling env st"
  by (simp add: drift_lines_def drift_handling_def Let_def split: option.splits)

lemma interrupted_cycle_locals:
  "exec sigs env sync_lines st = Inr st' \<Longrightarrow>
     \<exists>t'. sync_handling env st = Inr t' \<and> same_locals st' t'"
  "exec sigs env drift_lines st = Inr st' \<Longrightarrow>
     \<exists>t'. drift_handling env st = Inr t' \<and> same_locals st' t'"
  using exec_same_locals [of sigs env sync_lines st st' st]
    exec_same_locals [of sigs env drift_lines st st' st]
  by (simp_all add: exec_sync_lines exec_drift_lines)

lemma interrupted_body_plain: "interrupted_body env (\<lambda>_. []) st = loop_body env st"
  by (simp add: interrupted_body_def loop_body_def exec_sync_lines exec_drift_lines
      split: sum.splits)

section \<open>Properties of loop passes and of startup\<close>

lemma loop_body_positive:
  assumes "loop_body env st = Inr st'" and "admissible_pass env st" and "0 < server_sec st"
  shows "0 < server_sec st'"
proof -
  obtain st1 where s1: "(if fSync st \<noteq> 0 then sync_handling env st else Inr st) = Inr st1"
    and d: "(if fDrift st1 \<noteq> 0 then drift_handling env st1 else Inr st1) = Inr st'"
    using assms(1) unfolding loop_body_def by (auto split: sum.splits)
  have p1: "0 < server_sec st1"
  proof (cases "fSync st \<noteq> 0")
    case True
    with s1 have "sync_handling env st = Inr st1"
      by simp
    then have "server_sec st1 = server_sec st"
      by (rule sync_handling_Inr)
    with assms(3) show ?thesis
      by simp
  next
    case False
    with s1 assms(3) show ?thesis
      by simp
  qed
  show ?thesis
  proof (cases "fDrift st1 \<noteq> 0")
    case True
    with d have dh: "drift_handling env st1 = Inr st'"
      by simp
    then obtain ti sec where r: "get_skew_reply env = Some ti"
      and s: "drift_server_sec (T_skew_n ti) (T_skew_now st1) = Some sec"
      and e: "server_sec st' = sec"
      by (rule drift_handling_Inr)
    from assms(2) s1 r True have "admissible_delta (T_skew_n ti - T_skew_now st1)"
      by (simp add: admissible_pass_def)
    then have "- 61000000000 < T_skew_n ti - T_skew_now st1"
      by (simp only: admissible_delta_iff)
    from drift_server_sec_positive [OF drift_server_sec_SomeD(1) [OF s] this] s e
    show ?thesis
      by simp
  next
    case False
    with d p1 show ?thesis
      by simp
  qed
qed

lemma interrupted_body_positive:
  assumes "interrupted_body env sigs st = Inr st'" and "admissible_interrupted env sigs st"
    and "0 < server_sec st"
  shows "0 < server_sec st'"
proof -
  obtain st1 st2 where
    s1: "(if fSync st \<noteq> 0 then exec sigs env sync_lines st else Inr st) = Inr st1"
    and s2: "deliver (sigs L291) st1 = Inr st2"
    and d: "(if fDrift st2 \<noteq> 0 then exec sigs env drift_lines st2 else Inr st2) = Inr st'"
    using assms(1) unfolding interrupted_body_def by (auto split: sum.splits)
  have p1: "server_sec st1 = server_sec st"
  proof (cases "fSync st \<noteq> 0")
    case True
    with s1 have "exec sigs env sync_lines st = Inr st1"
      by simp
    then obtain t1 where h: "sync_handling env st = Inr t1" and e: "same_locals st1 t1"
      using exec_same_locals [of sigs env sync_lines st st1 st] by (auto simp: exec_sync_lines)
    from h have "server_sec t1 = server_sec st"
      by (rule sync_handling_Inr)
    with e show ?thesis
      by (simp add: same_locals_def)
  next
    case False
    with s1 show ?thesis
      by simp
  qed
  have e2: "same_locals st2 st1"
    using s2 by (rule deliver_same_locals)
  show ?thesis
  proof (cases "fDrift st2 \<noteq> 0")
    case True
    with d have "exec sigs env drift_lines st2 = Inr st'"
      by simp
    then obtain t' where h: "drift_handling env st2 = Inr t'" and e: "same_locals st' t'"
      using exec_same_locals [of sigs env drift_lines st2 st' st2]
      by (auto simp: exec_drift_lines)
    from h obtain ti sec where r: "get_skew_reply env = Some ti"
      and s: "drift_server_sec (T_skew_n ti) (T_skew_now st2) = Some sec"
      and c: "server_sec t' = sec"
      by (rule drift_handling_Inr)
    from assms(2) s1 s2 r True have "admissible_delta (T_skew_n ti - T_skew_now st2)"
      by (simp add: admissible_interrupted_def)
    then have "- 61000000000 < T_skew_n ti - T_skew_now st2"
      by (simp only: admissible_delta_iff)
    from drift_server_sec_positive [OF drift_server_sec_SomeD(1) [OF s] this] s c e
    show ?thesis
      by (simp add: same_locals_def)
  next
    case False
    with d p1 e2 assms(3) show ?thesis
      by (simp add: same_locals_def)
  qed
qed

lemma run_positive:
  assumes "run es st = Inr st'" and "admissible_run es st" and "0 < server_sec st"
  shows "0 < server_sec st'"
  using assms
proof (induction es arbitrary: st)
  case Nil
  then show ?case
    by simp
next
  case (Cons e es)
  from Cons.prems(1) obtain st1 where s: "step e st = Inr st1" and r: "run es st1 = Inr st'"
    by (auto split: sum.splits)
  show ?case
  proof (cases e)
    case (Expiration tid clock)
    with s have x: "expire tid clock st = Inr st1"
      by simp
    then have "server_sec st1 = server_sec st"
      by (rule expire_server_sec)
    moreover have "admissible_run es st1"
      using Cons.prems(2) x Expiration by simp
    ultimately show ?thesis
      using Cons.IH [OF r] Cons.prems(3) by simp
  next
    case (Loop_pass env)
    with s have x: "loop_body env st = Inr st1"
      by simp
    have a: "admissible_pass env st" and "admissible_run es st1"
      using Cons.prems(2) x Loop_pass by simp_all
    moreover have "0 < server_sec st1"
      using x a Cons.prems(3) by (rule loop_body_positive)
    ultimately show ?thesis
      using Cons.IH [OF r] by simp
  next
    case (Interrupted_pass env sigs)
    with s have x: "interrupted_body env sigs st = Inr st1"
      by simp
    have a: "admissible_interrupted env sigs st" and "admissible_run es st1"
      using Cons.prems(2) x Interrupted_pass by simp_all
    moreover have "0 < server_sec st1"
      using x a Cons.prems(3) by (rule interrupted_body_positive)
    ultimately show ?thesis
      using Cons.IH [OF r] by simp
  qed
qed




lemma expiry_time_startup:
  assumes "LLONG_MIN \<le> x" and "x + 301500000000 \<le> LLONG_MAX"
  shows "expiry_time x drift_period BILLION = Some (x + 61500000000)"
    and "expiry_time x sync_period BILLION = Some (x + 301500000000)"
  using assms
  by (simp_all add: expiry_time_def Let_def drift_period_def sync_period_def BILLION_def
      OFFSET_def in_long_long_def LLONG_MAX_def LLONG_MIN_def)

lemma startup_completes:
  assumes r: "initial_sync_reply env = Some ti"
    and lo: "LLONG_MIN \<le> T_start_n ti" and hi: "T_start_n ti + 301500000000 \<le> LLONG_MAX"
  shows "\<exists>st. startup env = Inr st"
proof -
  define st2 where
    "st2 = arm_trigger (trigger_sys env) ((setup_m (init_reply env) initial_state)\<lparr>TI := ti\<rparr>)"
  have f2: "T_trig_n st2 = T_start_n ti" "server_sec st2 = BILLION"
    by (simp_all add: st2_def initial_state_def)
  note e = expiry_time_startup [OF lo hi]
  obtain st3 where a3: "arm_drift (drift_sys env) st2 = Some st3"
    by (simp add: arm_drift_def f2 e Let_def case_prod_unfold)
  from a3 have f3: "T_trig_n st3 = T_start_n ti" "server_sec st3 = BILLION"
    by (auto elim!: arm_drift_Some simp: f2)
  obtain st4 where a4: "arm_sync (sync_sys env) st3 = Some st4"
    by (simp add: arm_sync_def f3 e Let_def case_prod_unfold)
  show ?thesis
    using r a3 a4 by (simp add: startup_def Let_def st2_def)
qed

lemma example_started:
  obtains st0 where
    "startup (startup_with 0 (Some \<lparr>T_skew_n = 0, T_start_n = 5000000000\<rparr>)) = Inr st0"
    and "T_trig_n st0 = 5000000000" and "T_sync_n st0 = 5000000000"
    and "T_skew_now st0 = 0" and "server_sec st0 = 1000000000"
    and "count st0 = 0" and "fSync st0 = 0" and "fDrift st0 = 0"
    and "timers st0 cameraTimerID =
          Some \<lparr>it_interval = \<lparr>tv_sec = 1, tv_nsec = 0\<rparr>, it_value = as_timespec 5000000000\<rparr>"
proof -
  let ?env = "startup_with 0 (Some \<lparr>T_skew_n = 0, T_start_n = 5000000000\<rparr>)"
  have r: "initial_sync_reply ?env = Some \<lparr>T_skew_n = 0, T_start_n = 5000000000\<rparr>"
    and k: "succeed (trigger_sys ?env)"
    by (simp_all add: startup_with_def all_ok_def succeed_def)
  have "\<exists>st. startup ?env = Inr st"
    by (rule startup_completes [OF r]) (simp_all add: LLONG_MAX_def LLONG_MIN_def)
  then obtain st0 where s: "startup ?env = Inr st0"
    by blast
  from s show ?thesis
  proof (rule startup_Inr)
    fix ti
    assume "initial_sync_reply ?env = Some ti"
      and f: "server_sec st0 = BILLION" "T_trig_n st0 = T_start_n ti" "T_sync_n st0 = T_start_n ti"
        "T_skew_now st0 = T_skew_n ti" "count st0 = 0" "fSync st0 = 0" "fDrift st0 = 0"
      and c: "timers st0 cameraTimerID =
          (if succeed (trigger_sys ?env)
           then Some \<lparr>it_interval = \<lparr>tv_sec = 1, tv_nsec = 0\<rparr>,
                      it_value = as_timespec (T_start_n ti)\<rparr>
           else None)"
    with r have "ti = \<lparr>T_skew_n = 0, T_start_n = 5000000000\<rparr>"
      by simp
    with f c k s show ?thesis
      by (intro that) (simp_all add: BILLION_def)
  qed
qed

lemma loop_body_count:
  assumes "loop_body env st = Inr st'"
  shows "count st' = (if fSync st \<noteq> 0 \<or> fDrift st \<noteq> 0 then 0 else count st)"
proof -
  obtain st1 where s1: "(if fSync st \<noteq> 0 then sync_handling env st else Inr st) = Inr st1"
    and d: "(if fDrift st1 \<noteq> 0 then drift_handling env st1 else Inr st1) = Inr st'"
    using assms unfolding loop_body_def by (auto split: sum.splits)
  show ?thesis
  proof (cases "fSync st \<noteq> 0")
    case True
    with s1 have h: "sync_handling env st = Inr st1"
      by simp
    from h have c1: "count st1 = 0"
      by (rule sync_handling_Inr)
    show ?thesis
    proof (cases "fDrift st1 \<noteq> 0")
      case True
      with d have "drift_handling env st1 = Inr st'"
        by simp
      then have "count st' = 0"
        by (rule drift_handling_Inr)
      with \<open>fSync st \<noteq> 0\<close> show ?thesis
        by simp
    next
      case False
      with d c1 \<open>fSync st \<noteq> 0\<close> show ?thesis
        by simp
    qed
  next
    case False
    with s1 have e: "st1 = st"
      by simp
    show ?thesis
    proof (cases "fDrift st \<noteq> 0")
      case True
      with d e have "drift_handling env st = Inr st'"
        by simp
      then have "count st' = 0"
        by (rule drift_handling_Inr)
      with True show ?thesis
        by simp
    next
      case False
      with d e \<open>\<not> fSync st \<noteq> 0\<close> show ?thesis
        by simp
    qed
  qed
qed


section \<open>Properties of the trigger counter\<close>

lemma statement_count:
  assumes "statement env l st = Inr st'"
  shows "count st' = (if l = L277 \<or> l = L322 then 0 else count st)"
  using assms by (cases l) (auto simp: Let_def split: option.splits if_splits)

lemma triggers_le: "triggers sigs st \<le> length sigs"
proof (induction sigs arbitrary: st)
  case Nil
  show ?case
    by simp
next
  case (Cons sg sigs)
  obtain tid clock where sg: "sg = (tid, clock)"
    by (cases sg)
  show ?case
  proof (cases "expire tid clock st")
    case (Inl h)
    then show ?thesis
      by (simp add: sg)
  next
    case (Inr st1)
    with Cons.IH [of st1] show ?thesis
      by (simp add: sg)
  qed
qed

lemma deliver_count:
  assumes "deliver sigs st = Inr st'"
  shows "count st' = count st + int (triggers sigs st)"
  using assms
proof (induction sigs arbitrary: st)
  case Nil
  then show ?case
    by simp
next
  case (Cons sg sigs)
  obtain tid clock where sg: "sg = (tid, clock)"
    by (cases sg)
  from Cons.prems obtain st1 where x: "expire tid clock st = Inr st1"
    and d: "deliver sigs st1 = Inr st'"
    unfolding sg by (auto split: sum.splits)
  from Cons.IH [OF d] expire_Inr(1) [OF x] x show ?case
    by (simp add: sg)
qed

lemma exec_count:
  assumes "exec sigs env ls st = Inr st'" and "L277 \<notin> set ls" and "L322 \<notin> set ls"
  shows "count st' = count st + int (exec_triggers sigs env ls st)"
  using assms
proof (induction ls arbitrary: st)
  case Nil
  then show ?case
    by simp
next
  case (Cons l ls)
  from Cons.prems(1) obtain st1 st2 where d: "deliver (sigs l) st = Inr st1"
    and c: "statement env l st1 = Inr st2" and r: "exec sigs env ls st2 = Inr st'"
    by (auto split: sum.splits)
  have "count st2 = count st1"
    using statement_count [OF c] Cons.prems(2,3) by auto
  moreover have "count st' = count st2 + int (exec_triggers sigs env ls st2)"
    using r Cons.prems(2,3) by (intro Cons.IH) simp_all
  ultimately show ?case
    using deliver_count [OF d] d c by simp
qed

lemma exec_triggers_le:
  "exec_triggers sigs env ls st \<le> (\<Sum>l\<leftarrow>ls. length (sigs l))"
proof (induction ls arbitrary: st)
  case Nil
  show ?case
    by simp
next
  case (Cons l ls)
  have t: "triggers (sigs l) st \<le> length (sigs l)"
    by (rule triggers_le)
  show ?case
  proof (cases "deliver (sigs l) st")
    case (Inl h)
    with t show ?thesis
      by simp
  next
    case d: (Inr st1)
    show ?thesis
    proof (cases "statement env l st1")
      case (Inl h)
      with t d show ?thesis
        by simp
    next
      case (Inr st2)
      with t d Cons.IH [of st2] show ?thesis
        by simp
    qed
  qed
qed

lemma exec_to_reset:
  assumes "exec sigs env (ls @ [l]) st = Inr st'" and "l = L277 \<or> l = L322"
  shows "count st' = 0"
proof -
  from assms(1) obtain st1 st2 where "deliver (sigs l) st1 = Inr st2"
    and c: "statement env l st2 = Inr st'"
    by (auto simp: exec_append split: sum.splits)
  from statement_count [OF c] assms(2) show ?thesis
    by auto
qed

lemma drift_cycle_count:
  assumes "exec sigs env drift_lines st = Inr st'"
  shows "\<exists>sr. exec sigs env drift_to_reset st = Inr sr \<and> count sr = 0
           \<and> exec sigs env drift_after_reset sr = Inr st'
           \<and> count st' = int (exec_triggers sigs env drift_after_reset sr)
           \<and> count st' \<le> int (length (sigs L323) + length (sigs L331) + length (sigs L335))"
proof -
  have l: "drift_lines = drift_to_reset @ drift_after_reset"
    by (simp add: drift_lines_def drift_to_reset_def drift_after_reset_def)
  from assms obtain sr where a: "exec sigs env drift_to_reset st = Inr sr"
    and b: "exec sigs env drift_after_reset sr = Inr st'"
    unfolding l exec_append by (auto split: sum.splits)
  have "exec sigs env ([L295, L299, L310, L318, L320] @ [L322]) st = Inr sr"
    using a by (simp add: drift_to_reset_def)
  then have z: "count sr = 0"
    by (rule exec_to_reset) simp
  have c: "count st' = count sr + int (exec_triggers sigs env drift_after_reset sr)"
    using b by (rule exec_count) (simp_all add: drift_after_reset_def)
  have "exec_triggers sigs env drift_after_reset sr
      \<le> (\<Sum>l\<leftarrow>drift_after_reset. length (sigs l))"
    by (rule exec_triggers_le)
  then have "exec_triggers sigs env drift_after_reset sr
      \<le> length (sigs L323) + length (sigs L331) + length (sigs L335)"
    by (simp add: drift_after_reset_def)
  with a b c z show ?thesis
    by auto
qed

lemma sync_cycle_count:
  assumes "exec sigs env sync_lines st = Inr st'"
  shows "\<exists>sr. exec sigs env sync_to_reset st = Inr sr \<and> count sr = 0
           \<and> exec sigs env sync_after_reset sr = Inr st'
           \<and> count st' = int (exec_triggers sigs env sync_after_reset sr)
           \<and> count st' \<le> int (length (sigs L279) + length (sigs L283) + length (sigs L286)
                                + length (sigs L287))"
proof -
  have l: "sync_lines = sync_to_reset @ sync_after_reset"
    by (simp add: sync_lines_def sync_to_reset_def sync_after_reset_def)
  from assms obtain sr where a: "exec sigs env sync_to_reset st = Inr sr"
    and b: "exec sigs env sync_after_reset sr = Inr st'"
    unfolding l exec_append by (auto split: sum.splits)
  have "exec sigs env ([L261, L273, L275] @ [L277]) st = Inr sr"
    using a by (simp add: sync_to_reset_def)
  then have z: "count sr = 0"
    by (rule exec_to_reset) simp
  have c: "count st' = count sr + int (exec_triggers sigs env sync_after_reset sr)"
    using b by (rule exec_count) (simp_all add: sync_after_reset_def)
  have "exec_triggers sigs env sync_after_reset sr
      \<le> (\<Sum>l\<leftarrow>sync_after_reset. length (sigs l))"
    by (rule exec_triggers_le)
  then have "exec_triggers sigs env sync_after_reset sr
      \<le> length (sigs L279) + length (sigs L283) + length (sigs L286) + length (sigs L287)"
    by (simp add: sync_after_reset_def)
  with a b c z show ?thesis
    by auto
qed

lemma run_append:
  "run (xs @ ys) st = (case run xs st of Inl h \<Rightarrow> Inl h | Inr st1 \<Rightarrow> run ys st1)"
  by (induction xs arbitrary: st) (auto split: sum.splits)

lemma main_append:
  "main env (xs @ ys) = (case main env xs of Inl h \<Rightarrow> Inl h | Inr st1 \<Rightarrow> run ys st1)"
  by (simp add: main_def run_append split: sum.splits)

lemma observe_SomeD:
  assumes "observe f r = Some v"
  obtains st where "r = Inr st" and "f st = v"
  using assms by (cases r) (simp_all add: observe_def)


section \<open>Properties of the Drift timer and of \<open>fDrift\<close>\<close>

lemma statement_drift:
  assumes "statement env l st = Inr st'"
  shows "fDrift st' = (if l = L335 then 0 else fDrift st)"
    and "l \<noteq> L279 \<Longrightarrow> timers st' driftTimerID = timers st driftTimerID"
    and "timers st' driftTimerID = timers st driftTimerID
         \<or> l = L279 \<and> (\<exists>v. timers st' driftTimerID = Some \<lparr>it_interval = one_shot, it_value = v\<rparr>)"
  using assms
  by (cases l;
      auto simp: Let_def resetTimer_timers one_shot_def int_of_long_long_def
        split: option.splits if_splits)+

lemma expire_drift:
  assumes "expire tid clock st = Inr st'" and "drift_one_shot st"
  shows "drift_one_shot st'" and "pending_drift st' \<le> pending_drift st"
    and "fDrift st \<noteq> 0 \<Longrightarrow> fDrift st' \<noteq> 0"
    and "timers st' driftTimerID = None \<or> timers st' driftTimerID = timers st driftTimerID"
proof -
  note f = expire_Inr(3,4) [OF assms(1)]
  show t: "timers st' driftTimerID = None \<or> timers st' driftTimerID = timers st driftTimerID"
    unfolding f by (auto split: option.splits)
  from t assms(2) show "drift_one_shot st'"
    by (auto simp: drift_one_shot_def)
  show "fDrift st \<noteq> 0 \<Longrightarrow> fDrift st' \<noteq> 0"
    unfolding f by simp
  show "pending_drift st' \<le> pending_drift st"
  proof (cases "fDrift st' = fDrift st")
    case True
    with t show ?thesis
      by (auto simp: pending_drift_def)
  next
    case False
    then have a: "timers st tid \<noteq> None" and k: "kernel_id st tid \<noteq> kernel_id st cameraTimerID"
      "kernel_id st tid \<noteq> kernel_id st syncTimerID"
      unfolding f by (auto split: if_splits)
    from k have tid: "tid = driftTimerID"
      by (cases tid) auto
    from a obtain setting where s: "timers st driftTimerID = Some setting"
      unfolding tid by blast
    with assms(2) have "it_interval setting = one_shot"
      by (simp add: drift_one_shot_def)
    with s have "timers st' driftTimerID = None"
      unfolding f tid by simp
    with s show ?thesis
      by (simp add: pending_drift_def)
  qed
qed

lemma deliver_drift:
  assumes "deliver sigs st = Inr st'" and "drift_one_shot st"
  shows "drift_one_shot st'" and "pending_drift st' \<le> pending_drift st"
    and "fDrift st \<noteq> 0 \<Longrightarrow> fDrift st' \<noteq> 0"
    and "timers st' driftTimerID = None \<or> timers st' driftTimerID = timers st driftTimerID"
proof -
  define P where "P = (\<lambda>s. drift_one_shot s \<and> pending_drift s \<le> pending_drift st
    \<and> (fDrift st \<noteq> 0 \<longrightarrow> fDrift s \<noteq> 0)
    \<and> (timers s driftTimerID = None \<or> timers s driftTimerID = timers st driftTimerID))"
  have "P st"
    using assms(2) by (simp add: P_def)
  with assms(1) have "P st'"
  proof (rule deliver_invariant)
    fix tid clock s s'
    assume p: "P s" and x: "expire tid clock s = Inr s'"
    from p have o: "drift_one_shot s"
      by (simp add: P_def)
    from expire_drift [OF x o] p show "P s'"
      unfolding P_def by auto
  qed
  then show "drift_one_shot st'" and "pending_drift st' \<le> pending_drift st"
    and "fDrift st \<noteq> 0 \<Longrightarrow> fDrift st' \<noteq> 0"
    and "timers st' driftTimerID = None \<or> timers st' driftTimerID = timers st driftTimerID"
    by (simp_all add: P_def)
qed

lemma exec_drift:
  assumes "exec sigs env ls st = Inr st'" and "drift_one_shot st"
    and "L279 \<notin> set ls" and "L335 \<notin> set ls"
  shows "drift_one_shot st'" and "pending_drift st' \<le> pending_drift st"
    and "fDrift st \<noteq> 0 \<Longrightarrow> fDrift st' \<noteq> 0"
    and "timers st' driftTimerID = None \<or> timers st' driftTimerID = timers st driftTimerID"
proof -
  define P where "P = (\<lambda>s. drift_one_shot s \<and> pending_drift s \<le> pending_drift st
    \<and> (fDrift st \<noteq> 0 \<longrightarrow> fDrift s \<noteq> 0)
    \<and> (timers s driftTimerID = None \<or> timers s driftTimerID = timers st driftTimerID))"
  have "P st"
    using assms(2) by (simp add: P_def)
  with assms(1) have "P st'"
  proof (rule exec_invariant)
    fix tid clock s s'
    assume p: "P s" and x: "expire tid clock s = Inr s'"
    from p have o: "drift_one_shot s"
      by (simp add: P_def)
    from expire_drift [OF x o] p show "P s'"
      unfolding P_def by auto
  next
    fix l s s'
    assume "l \<in> set ls" and p: "P s" and c: "statement env l s = Inr s'"
    with assms(3,4) have "l \<noteq> L279" and "l \<noteq> L335"
      by auto
    with statement_drift(1,2) [OF c] have "fDrift s' = fDrift s"
      and "timers s' driftTimerID = timers s driftTimerID"
      by simp_all
    with p show "P s'"
      by (simp add: P_def drift_one_shot_def pending_drift_def)
  qed
  then show "drift_one_shot st'" and "pending_drift st' \<le> pending_drift st"
    and "fDrift st \<noteq> 0 \<Longrightarrow> fDrift st' \<noteq> 0"
    and "timers st' driftTimerID = None \<or> timers st' driftTimerID = timers st driftTimerID"
    by (simp_all add: P_def)
qed

lemma sync_lines_drift:
  assumes "exec sigs env sync_lines st = Inr st'" and "drift_one_shot st"
  shows "drift_one_shot st'" and "pending_drift st' \<le> pending_drift st + 1"
proof -
  have l: "sync_lines = [L261, L273, L275, L277] @ L279 # [L283, L286, L287]"
    by (simp add: sync_lines_def)
  from assms(1) obtain s1 s2 s3 where a: "exec sigs env [L261, L273, L275, L277] st = Inr s1"
    and d: "deliver (sigs L279) s1 = Inr s2" and c: "statement env L279 s2 = Inr s3"
    and b: "exec sigs env [L283, L286, L287] s3 = Inr st'"
    unfolding l exec_append exec.simps(2) [of _ _ L279] by (auto split: sum.splits)
  have o1: "drift_one_shot s1" and p1: "pending_drift s1 \<le> pending_drift st"
    using exec_drift(1,2) [OF a assms(2)] by simp_all
  have o2: "drift_one_shot s2" and p2: "pending_drift s2 \<le> pending_drift s1"
    using deliver_drift(1,2) [OF d o1] by simp_all
  have o3: "drift_one_shot s3" and p3: "pending_drift s3 \<le> pending_drift s2 + 1"
    using statement_drift(1,3) [OF c] o2
    by (auto simp: drift_one_shot_def pending_drift_def)
  have "drift_one_shot st'" and "pending_drift st' \<le> pending_drift s3"
    using exec_drift(1,2) [OF b o3] by simp_all
  with p1 p2 p3 show "drift_one_shot st'" and "pending_drift st' \<le> pending_drift st + 1"
    by simp_all
qed

lemma drift_lines_drift:
  assumes "exec sigs env drift_lines st = Inr st'" and "drift_one_shot st" and "fDrift st \<noteq> 0"
  shows "drift_one_shot st'" and "pending_drift st' + 1 \<le> pending_drift st"
    and "timers st' driftTimerID = None \<or> timers st' driftTimerID = timers st driftTimerID"
proof -
  have l: "drift_lines = [L295, L299, L310, L318, L320, L322, L323, L331] @ [L335]"
    by (simp add: drift_lines_def)
  from assms(1) obtain s1 s2 where
    a: "exec sigs env [L295, L299, L310, L318, L320, L322, L323, L331] st = Inr s1"
    and d: "deliver (sigs L335) s1 = Inr s2" and c: "statement env L335 s2 = Inr st'"
    unfolding l exec_append by (auto split: sum.splits)
  have o1: "drift_one_shot s1" and p1: "pending_drift s1 \<le> pending_drift st"
    and f1: "fDrift s1 \<noteq> 0"
    and t1: "timers s1 driftTimerID = None \<or> timers s1 driftTimerID = timers st driftTimerID"
    using exec_drift [OF a assms(2)] assms(3) by simp_all
  have o2: "drift_one_shot s2" and p2: "pending_drift s2 \<le> pending_drift s1"
    and f2: "fDrift s2 \<noteq> 0"
    and t2: "timers s2 driftTimerID = None \<or> timers s2 driftTimerID = timers s1 driftTimerID"
    using deliver_drift [OF d o1] f1 by simp_all
  have e: "fDrift st' = 0" "timers st' driftTimerID = timers s2 driftTimerID"
    using statement_drift(1,2) [OF c] by simp_all
  show "drift_one_shot st'"
    using o2 e by (simp add: drift_one_shot_def)
  have "pending_drift st' + 1 = pending_drift s2"
    using e f2 by (simp add: pending_drift_def)
  with p1 p2 show "pending_drift st' + 1 \<le> pending_drift st"
    by simp
  from t1 t2 e show
    "timers st' driftTimerID = None \<or> timers st' driftTimerID = timers st driftTimerID"
    by auto
qed

lemma loop_pass_plain:
  "step (Loop_pass env) st = step (Interrupted_pass env (\<lambda>_. [])) st"
  "drift_entered (Loop_pass env) st = drift_entered (Interrupted_pass env (\<lambda>_. [])) st"
  "sync_entered (Loop_pass env) st = sync_entered (Interrupted_pass env (\<lambda>_. [])) st"
  by (simp_all add: interrupted_body_plain exec_sync_lines split: sum.splits)

lemma interrupted_pass_drift:
  assumes "drift_one_shot st"
  shows "case step (Interrupted_pass env sigs) st of
           Inl h \<Rightarrow>
             drift_entered (Interrupted_pass env sigs) st
               \<le> pending_drift st + sync_entered (Interrupted_pass env sigs) st
         | Inr st' \<Rightarrow>
             drift_one_shot st'
             \<and> pending_drift st' + drift_entered (Interrupted_pass env sigs) st
                 \<le> pending_drift st + sync_entered (Interrupted_pass env sigs) st"
proof -
  define a where "a = (if fSync st \<noteq> 0 then exec sigs env sync_lines st else Inr st)"
  define cs :: nat where "cs = (if fSync st \<noteq> 0 then 1 else 0)"
  show ?thesis
  proof (cases a)
    case (Inl h)
    then show ?thesis
      by (simp add: interrupted_body_def a_def [symmetric])
  next
    case a1: (Inr st1)
    have o1: "drift_one_shot st1" and p1: "pending_drift st1 \<le> pending_drift st + cs"
    proof -
      show "drift_one_shot st1"
      proof (cases "fSync st \<noteq> 0")
        case True
        with a1 have "exec sigs env sync_lines st = Inr st1"
          by (simp add: a_def)
        then show ?thesis
          using assms by (rule sync_lines_drift)
      next
        case False
        with a1 assms show ?thesis
          by (simp add: a_def)
      qed
      show "pending_drift st1 \<le> pending_drift st + cs"
      proof (cases "fSync st \<noteq> 0")
        case True
        with a1 have "exec sigs env sync_lines st = Inr st1"
          by (simp add: a_def)
        then have "pending_drift st1 \<le> pending_drift st + 1"
          using assms by (rule sync_lines_drift)
        with True show ?thesis
          by (simp add: cs_def)
      next
        case False
        with a1 show ?thesis
          by (simp add: a_def)
      qed
    qed
    show ?thesis
    proof (cases "deliver (sigs L291) st1")
      case (Inl h)
      with a1 show ?thesis
        by (simp add: interrupted_body_def a_def [symmetric])
    next
      case d: (Inr st2)
      have o2: "drift_one_shot st2" and p2: "pending_drift st2 \<le> pending_drift st1"
        using deliver_drift(1,2) [OF d o1] by simp_all
      show ?thesis
      proof (cases "fDrift st2 \<noteq> 0")
        case False
        with a1 d o2 p1 p2 show ?thesis
          by (simp add: interrupted_body_def a_def [symmetric] cs_def)
      next
        case True
        then have g: "1 \<le> pending_drift st2"
          by (simp add: pending_drift_def)
        show ?thesis
        proof (cases "exec sigs env drift_lines st2")
          case (Inl h)
          with a1 d True g p1 p2 show ?thesis
            by (simp add: interrupted_body_def a_def [symmetric] cs_def)
        next
          case (Inr st3)
          from drift_lines_drift(1,2) [OF Inr o2 True] a1 d True p1 p2 Inr show ?thesis
            by (simp add: interrupted_body_def a_def [symmetric] cs_def)
        qed
      qed
    qed
  qed
qed

lemma step_drift:
  assumes "drift_one_shot st"
  shows "case step e st of
           Inl h \<Rightarrow> drift_entered e st \<le> pending_drift st + sync_entered e st
         | Inr st' \<Rightarrow>
             drift_one_shot st'
             \<and> pending_drift st' + drift_entered e st \<le> pending_drift st + sync_entered e st"
proof (cases e)
  case (Expiration tid clock)
  show ?thesis
  proof (cases "expire tid clock st")
    case (Inl h)
    then show ?thesis
      by (simp add: Expiration)
  next
    case (Inr st')
    from expire_drift(1,2) [OF Inr assms] Inr show ?thesis
      by (simp add: Expiration)
  qed
next
  case (Loop_pass env)
  from interrupted_pass_drift [OF assms, of env "\<lambda>_. []"] show ?thesis
    unfolding Loop_pass loop_pass_plain .
next
  case (Interrupted_pass env sigs)
  from interrupted_pass_drift [OF assms, of env sigs] show ?thesis
    unfolding Interrupted_pass .
qed

lemma run_drift_one_shot:
  assumes "run es st = Inr st'" and "drift_one_shot st"
  shows "drift_one_shot st'"
  using assms
proof (induction es arbitrary: st)
  case Nil
  then show ?case
    by simp
next
  case (Cons e es)
  from Cons.prems(1) obtain st1 where s: "step e st = Inr st1" and r: "run es st1 = Inr st'"
    by (auto split: sum.splits)
  from step_drift [OF Cons.prems(2), of e] s have "drift_one_shot st1"
    by simp
  with r show ?case
    by (rule Cons.IH)
qed

lemma startup_drift_one_shot:
  assumes "startup env = Inr st"
  shows "drift_one_shot st" and "pending_drift st \<le> 1"
proof -
  from assms obtain t_drift where "fDrift st = 0"
    and "timers st driftTimerID =
          (if succeed (drift_sys env)
           then Some \<lparr>it_interval = one_shot, it_value = as_timespec t_drift\<rparr>
           else None)"
    by (rule startup_Inr)
  then show "drift_one_shot st" and "pending_drift st \<le> 1"
    by (simp_all add: drift_one_shot_def pending_drift_def)
qed

lemma drift_cycles_bound:
  assumes "drift_one_shot st"
  shows "drift_cycles es st \<le> pending_drift st + sync_cycles es st"
  using assms
proof (induction es arbitrary: st)
  case Nil
  show ?case
    by simp
next
  case (Cons e es)
  note b = step_drift [OF Cons.prems, of e]
  show ?case
  proof (cases "step e st")
    case (Inl h)
    with b show ?thesis
      by simp
  next
    case (Inr st1)
    with b have o: "drift_one_shot st1"
      and p: "pending_drift st1 + drift_entered e st \<le> pending_drift st + sync_entered e st"
      by simp_all
    from Cons.IH [OF o] p Inr show ?thesis
      by simp
  qed
qed

lemma step_arms_drift:
  assumes "step e st = Inr st'" and "sync_entered e st = 0" and "drift_one_shot st"
  shows "timers st' driftTimerID = None \<or> timers st' driftTimerID = timers st driftTimerID"
proof -
  have i: "timers st' driftTimerID = None \<or> timers st' driftTimerID = timers st driftTimerID"
    if x: "interrupted_body env sigs st = Inr st'" and z: "fSync st = 0" for env sigs
  proof -
    from x z obtain st2 where d: "deliver (sigs L291) st = Inr st2"
      and c: "(if fDrift st2 \<noteq> 0 then exec sigs env drift_lines st2 else Inr st2) = Inr st'"
      unfolding interrupted_body_def by (auto split: sum.splits)
    note t2 = deliver_drift(1,4) [OF d assms(3)]
    show ?thesis
    proof (cases "fDrift st2 \<noteq> 0")
      case True
      with c have "exec sigs env drift_lines st2 = Inr st'"
        by simp
      from drift_lines_drift(3) [OF this t2(1) True] t2(2) show ?thesis
        by auto
    next
      case False
      with c t2(2) show ?thesis
        by simp
    qed
  qed
  show ?thesis
  proof (cases e)
    case (Expiration tid clock)
    with assms(1) have "expire tid clock st = Inr st'"
      by simp
    then show ?thesis
      using assms(3) by (rule expire_drift)
  next
    case (Loop_pass env)
    with assms(1,2) have "interrupted_body env (\<lambda>_. []) st = Inr st'" and "fSync st = 0"
      by (simp_all add: interrupted_body_plain split: if_splits)
    then show ?thesis
      by (rule i)
  next
    case (Interrupted_pass env sigs)
    with assms(1,2) have "interrupted_body env sigs st = Inr st'" and "fSync st = 0"
      by (simp_all split: if_splits)
    then show ?thesis
      by (rule i)
  qed
qed

lemma drift_expiration_starts_cycle:
  assumes "timers st driftTimerID \<noteq> None"
    and "kernel_id st driftTimerID \<noteq> kernel_id st cameraTimerID"
    and "kernel_id st driftTimerID \<noteq> kernel_id st syncTimerID"
    and "fSync st = 0"
  shows "1 \<le> drift_cycles (Expiration driftTimerID clock # Loop_pass env # es) st"
proof -
  from assms(1) obtain setting where s: "timers st driftTimerID = Some setting"
    by blast
  define b where "b = (if it_interval setting = one_shot
    then st\<lparr>timers := (timers st)(driftTimerID := None)\<rparr> else st)"
  have k: "kernel_id b = kernel_id st" and f: "fSync b = fSync st"
    by (simp_all add: b_def)
  have x: "expire driftTimerID clock st = Inr (b\<lparr>fDrift := 1\<rparr>)"
    using assms(2,3) by (simp add: expire_def s b_def [symmetric] timer_handler_def k)
  show ?thesis
    by (simp add: x f assms(4))
qed
section \<open>The period estimate of a Drift cycle\<close>

text \<open>
  Claim C1 says that the new period is \<open>round (1e18 / (d / drift_period + 1e9))\<close> for the skew
  delta \<open>d\<close>, with a real quotient and rounding to nearest. Two runs refute it. After a start
  with skew 0, a Drift cycle that samples a skew of 60 keeps the period at 1_000_000_000,
  because the \<open>long long\<close> quotient \<open>60 / 61\<close> is 0; the formula gives 999_999_999. A Drift
  cycle that samples 1_830_000, whose quotient 30_000 is exact, sets the period to
  999_970_000, because the conversion to \<open>long long\<close> drops the fraction 0.899...; the
  formula rounds it up to 999_970_001.
\<close>

theorem period_formula_counterexample:
  "observe server_sec
     (main (startup_with 0 (Some \<lparr>T_skew_n = 0, T_start_n = 5000000000\<rparr>))
        [Expiration driftTimerID \<lparr>tv_sec = 66, tv_nsec = 500000000\<rparr>,
         Loop_pass (pass_with None (Some \<lparr>T_skew_n = 60, T_start_n = 5000000000\<rparr>))])
     = Some 1000000000
   \<and> spec_server_second (60 - 0) = 999999999
   \<and> observe server_sec
     (main (startup_with 0 (Some \<lparr>T_skew_n = 0, T_start_n = 5000000000\<rparr>))
        [Expiration driftTimerID \<lparr>tv_sec = 66, tv_nsec = 500000000\<rparr>,
         Loop_pass (pass_with None (Some \<lparr>T_skew_n = 1830000, T_start_n = 5000000000\<rparr>))])
     = Some 999970000
   \<and> spec_server_second (1830000 - 0) = 999970001"
  by code_simp

text \<open>
  Claim C1, as amended. In every completed Drift handling cycle, with previous skew
  \<open>T_skew_now st\<close> and fresh sample \<open>T_skew_n ti\<close>, let \<open>q\<close> be the skew delta divided by
  \<open>drift_period\<close> as a \<open>long long\<close>, truncated towards zero, and \<open>R\<close> the double product
  \<open>1e9 * (1e9 / (q + 1e9))\<close>, each of the conversion, the division and the multiplication
  rounded to the nearest double. Then \<open>q + 1e9\<close> is not 0 and the new \<open>server_sec\<close> is \<open>R\<close> with
  its fraction dropped: the floor of \<open>R\<close> when \<open>R\<close> is not negative, else its ceiling. \<open>R\<close>
  differs from the exact quotient \<open>E = 1e18 / (q + 1e9)\<close> by at most \<open>|E| / 2 ^ 51\<close>, so the new
  \<open>server_sec\<close> differs from \<open>E\<close> by less than \<open>1 + |E| / 2 ^ 51\<close>. Deltas of 0 and of 60 give
  exactly 1_000_000_000, a delta of 61_000 gives 999_999_000 and a delta of 1_830_000 gives
  999_970_000.
\<close>

theorem drift_cycle_period_estimate:
  assumes "drift_handling env st = Inr st'" and "get_skew_reply env = Some ti"
  shows "let q = (T_skew_n ti - T_skew_now st) sdiv drift_period;
             E = 10 ^ 18 / of_int (q + BILLION) :: rat;
             R = round_double
                   (10 ^ 9 * round_double (10 ^ 9 / round_double (of_int (q + BILLION))))
         in q + BILLION \<noteq> 0
            \<and> server_sec st' = (if 0 \<le> R then \<lfloor>R\<rfloor> else \<lceil>R\<rceil>)
            \<and> \<bar>R - E\<bar> \<le> \<bar>E\<bar> / 2 ^ 51
            \<and> \<bar>of_int (server_sec st') - E\<bar> < 1 + \<bar>E\<bar> / 2 ^ 51
            \<and> (T_skew_n ti = T_skew_now st \<longrightarrow> server_sec st' = 1000000000)
            \<and> (T_skew_n ti = T_skew_now st + 60 \<longrightarrow> server_sec st' = 1000000000)
            \<and> (T_skew_n ti = T_skew_now st + 61000 \<longrightarrow> server_sec st' = 999999000)
            \<and> (T_skew_n ti = T_skew_now st + 1830000 \<longrightarrow> server_sec st' = 999970000)"
proof -
  from assms(1) obtain ti' sec
    where "get_skew_reply env = Some ti'"
      and s: "drift_server_sec (T_skew_n ti') (T_skew_now st) = Some sec"
      and "server_sec st' = sec"
    by (rule drift_handling_Inr)
  with assms(2) have s': "drift_server_sec (T_skew_n ti) (T_skew_now st) = Some (server_sec st')"
    by simp
  have "(T_skew_n ti - T_skew_now st) sdiv drift_period + BILLION \<noteq> 0"
    using s' by (rule drift_server_sec_SomeD)
  moreover note drift_server_sec_value [OF s'] drift_server_sec_close(1) [OF s']
  moreover have "T_skew_n ti = T_skew_now st \<longrightarrow> server_sec st' = 1000000000"
    using s' drift_server_sec_same [of "T_skew_now st"] by auto
  moreover have "T_skew_n ti = T_skew_now st + 60 \<longrightarrow> server_sec st' = 1000000000"
    using s' drift_server_sec_60 [of "T_skew_now st"] by auto
  moreover have "T_skew_n ti = T_skew_now st + 61000 \<longrightarrow> server_sec st' = 999999000"
    using s' drift_server_sec_61000 [of "T_skew_now st"] by auto
  moreover have "T_skew_n ti = T_skew_now st + 1830000 \<longrightarrow> server_sec st' = 999970000"
    using s' drift_server_sec_1830000 [of "T_skew_now st"] by auto
  ultimately show ?thesis
    unfolding Let_def truncate_double_def by blast
qed

text \<open>
  After a start with skew 0, a Drift cycle that samples a skew of 1_830_000 completes, and the
  theorem gives its period: the double product is 999_970_000.899..., and its fraction is
  dropped.
\<close>

theorem drift_cycle_period_estimate_witness:
  "\<exists>st0 st'.
     startup (startup_with 0 (Some \<lparr>T_skew_n = 0, T_start_n = 5000000000\<rparr>)) = Inr st0
     \<and> drift_handling (pass_with None (Some \<lparr>T_skew_n = 1830000, T_start_n = 5000000000\<rparr>)) st0
         = Inr st'
     \<and> server_sec st' = 999970000"
proof -
  let ?env = "pass_with None (Some \<lparr>T_skew_n = 1830000, T_start_n = 5000000000\<rparr>)"
  obtain st0 where s: "startup (startup_with 0 (Some \<lparr>T_skew_n = 0, T_start_n = 5000000000\<rparr>))
      = Inr st0"
    and f: "T_trig_n st0 = 5000000000" "T_sync_n st0 = 5000000000" "T_skew_now st0 = 0"
    by (rule example_started)
  have r: "get_skew_reply ?env = Some \<lparr>T_skew_n = 1830000, T_start_n = 5000000000\<rparr>"
    by (simp add: pass_with_def)
  have "\<exists>st'. drift_handling ?env st0 = Inr st'"
    by (rule drift_handling_completes [OF r]) (simp_all add: f)
  then obtain st' where c: "drift_handling ?env st0 = Inr st'"
    by blast
  from drift_cycle_period_estimate [OF c r] have "server_sec st' = 999970000"
    by (simp add: f Let_def)
  with s c show ?thesis
    by blast
qed

section \<open>Positivity of the period estimate\<close>

text \<open>
  Claim C2. For every skew delta \<open>d = skew_now - skew_prev\<close> that a \<open>long long\<close> holds and
  whose real quotient \<open>d / drift_period\<close> is above \<open>-1e9\<close>, the Drift computation is defined
  and its \<open>server_sec\<close> is strictly positive. Consequently \<open>server_sec\<close> is strictly positive
  in every state that a run reaches from startup, whatever Trigger firings, Sync cycles and
  Drift cycles it has gone through, as long as each Drift cycle had such a delta.
\<close>

theorem server_sec_strictly_positive:
  "(in_long_long (skew_now - skew_prev) \<and> admissible_delta (skew_now - skew_prev)
      \<longrightarrow> (\<exists>s. drift_server_sec skew_now skew_prev = Some s \<and> 0 < s))
   \<and> (main senv es = Inr st
        \<and> (case startup senv of Inl h \<Rightarrow> True | Inr st0 \<Rightarrow> admissible_run es st0)
      \<longrightarrow> 0 < server_sec st)"
proof (intro conjI impI)
  assume "in_long_long (skew_now - skew_prev) \<and> admissible_delta (skew_now - skew_prev)"
  then show "\<exists>s. drift_server_sec skew_now skew_prev = Some s \<and> 0 < s"
    by (simp add: admissible_delta_iff drift_server_sec_positive)
next
  assume a: "main senv es = Inr st
    \<and> (case startup senv of Inl h \<Rightarrow> True | Inr st0 \<Rightarrow> admissible_run es st0)"
  then obtain st0 where s: "startup senv = Inr st0" and r: "run es st0 = Inr st"
    by (auto simp: main_def split: sum.splits)
  with a have a0: "admissible_run es st0"
    by simp
  have p0: "0 < server_sec st0"
    using startup_server_sec [OF s] by (simp add: BILLION_def)
  from r a0 p0 show "0 < server_sec st"
    by (rule run_positive)
qed

text \<open>
  The delta \<open>-60_999_999_999\<close>, the least admissible one, gives a positive period, and so does
  a run with one Drift cycle whose delta is \<open>-61_000\<close>.
\<close>

theorem server_sec_strictly_positive_witness:
  "(\<exists>s. drift_server_sec (- 60999999999) 0 = Some s \<and> 0 < s)
   \<and> (\<exists>st. main (startup_with 0 (Some \<lparr>T_skew_n = 0, T_start_n = 5000000000\<rparr>))
            [Expiration driftTimerID \<lparr>tv_sec = 66, tv_nsec = 500000000\<rparr>,
             Loop_pass (pass_with None (Some \<lparr>T_skew_n = - 61000, T_start_n = 5000000000\<rparr>))]
          = Inr st \<and> 0 < server_sec st)"
proof -
  let ?senv = "startup_with 0 (Some \<lparr>T_skew_n = 0, T_start_n = 5000000000\<rparr>)"
  let ?es = "[Expiration driftTimerID \<lparr>tv_sec = 66, tv_nsec = 500000000\<rparr>,
              Loop_pass (pass_with None (Some \<lparr>T_skew_n = - 61000, T_start_n = 5000000000\<rparr>))]"
  have h1: "in_long_long (- 60999999999 - 0) \<and> admissible_delta (- 60999999999 - 0)"
    by (simp add: in_long_long_def LLONG_MAX_def LLONG_MIN_def admissible_delta_iff)
  have "observe server_sec (main ?senv ?es) = Some 1000001000"
    by code_simp
  then obtain st where m: "main ?senv ?es = Inr st"
    by (auto simp: observe_def split: sum.splits)
  have h2: "case startup ?senv of Inl h \<Rightarrow> True | Inr st0 \<Rightarrow> admissible_run ?es st0"
    by code_simp
  from server_sec_strictly_positive [of "- 60999999999" 0 ?senv ?es st] h1 m h2
  show ?thesis
    by blast
qed

section \<open>What a Drift cycle re-arms\<close>



section \<open>What a Sync cycle re-arms\<close>




section \<open>The timers at startup\<close>

text \<open>
  Claim C5. When the initial synchronization returns \<open>T_start_n = X\<close> (with \<open>X + 301.5e9\<close>
  within \<open>long long\<close>), startup completes and each timer whose system calls succeed is armed:
  the Trigger timer at \<open>X\<close> with an interval of 1 s, that is 1e9 ns; the Drift timer at
  \<open>X + 61e9 + 5e8\<close> with interval zero; the Sync timer at \<open>X + 301e9 + 5e8\<close> with interval
  zero.
\<close>

theorem startup_arms_timers:
  assumes "initial_sync_reply env = Some ti"
    and "LLONG_MIN \<le> T_start_n ti" and "T_start_n ti + 301500000000 \<le> LLONG_MAX"
  shows "\<exists>st. startup env = Inr st
     \<and> T_trig_n st = T_start_n ti
     \<and> (succeed (trigger_sys env) \<longrightarrow>
          timers st cameraTimerID =
            Some \<lparr>it_interval = \<lparr>tv_sec = 1, tv_nsec = 0\<rparr>,
                  it_value = as_timespec (T_start_n ti)\<rparr>)
     \<and> (succeed (drift_sys env) \<longrightarrow>
          timers st driftTimerID =
            Some \<lparr>it_interval = \<lparr>tv_sec = 0, tv_nsec = 0\<rparr>,
                  it_value = as_timespec (T_start_n ti + 61500000000)\<rparr>)
     \<and> (succeed (sync_sys env) \<longrightarrow>
          timers st syncTimerID =
            Some \<lparr>it_interval = \<lparr>tv_sec = 0, tv_nsec = 0\<rparr>,
                  it_value = as_timespec (T_start_n ti + 301500000000)\<rparr>)"
proof -
  from startup_completes [OF assms] obtain st where s: "startup env = Inr st"
    by blast
  note e = expiry_time_startup [OF assms(2,3)]
  from s show ?thesis
  proof (rule startup_Inr)
    fix ti' t_drift t_sync
    assume r: "initial_sync_reply env = Some ti'"
      and d: "expiry_time (T_start_n ti') drift_period BILLION = Some t_drift"
      and y: "expiry_time (T_start_n ti') sync_period BILLION = Some t_sync"
      and f: "T_trig_n st = T_start_n ti'"
      and c: "timers st cameraTimerID =
          (if succeed (trigger_sys env)
           then Some \<lparr>it_interval = \<lparr>tv_sec = 1, tv_nsec = 0\<rparr>,
                      it_value = as_timespec (T_start_n ti')\<rparr>
           else None)"
      and td: "timers st driftTimerID =
          (if succeed (drift_sys env)
           then Some \<lparr>it_interval = one_shot, it_value = as_timespec t_drift\<rparr>
           else None)"
      and ts: "timers st syncTimerID =
          (if succeed (sync_sys env)
           then Some \<lparr>it_interval = one_shot, it_value = as_timespec t_sync\<rparr>
           else None)"
    from r assms(1) have ti: "ti' = ti"
      by simp
    from d y e have "t_drift = T_start_n ti + 61500000000" "t_sync = T_start_n ti + 301500000000"
      by (simp_all add: ti)
    with s show ?thesis
      by (simp add: f c td ts ti one_shot_def)
  qed
qed

text \<open>
  A start at \<open>X = 5 s\<close> with every system call succeeding.
\<close>

theorem startup_arms_timers_witness:
  "\<exists>st. startup (startup_with 0 (Some \<lparr>T_skew_n = 0, T_start_n = 5000000000\<rparr>)) = Inr st
     \<and> timers st cameraTimerID =
         Some \<lparr>it_interval = \<lparr>tv_sec = 1, tv_nsec = 0\<rparr>, it_value = as_timespec 5000000000\<rparr>
     \<and> timers st driftTimerID =
         Some \<lparr>it_interval = \<lparr>tv_sec = 0, tv_nsec = 0\<rparr>, it_value = as_timespec 66500000000\<rparr>
     \<and> timers st syncTimerID =
         Some \<lparr>it_interval = \<lparr>tv_sec = 0, tv_nsec = 0\<rparr>, it_value = as_timespec 306500000000\<rparr>"
proof -
  let ?env = "startup_with 0 (Some \<lparr>T_skew_n = 0, T_start_n = 5000000000\<rparr>)"
  have r: "initial_sync_reply ?env = Some \<lparr>T_skew_n = 0, T_start_n = 5000000000\<rparr>"
    by (simp add: startup_with_def)
  have k: "succeed (trigger_sys ?env)" "succeed (drift_sys ?env)" "succeed (sync_sys ?env)"
    by (simp_all add: startup_with_def all_ok_def succeed_def)
  have "LLONG_MIN \<le> T_start_n \<lparr>T_skew_n = 0, T_start_n = 5000000000\<rparr>"
    and "T_start_n \<lparr>T_skew_n = 0, T_start_n = 5000000000\<rparr> + 301500000000 \<le> LLONG_MAX"
    by (simp_all add: LLONG_MAX_def LLONG_MIN_def)
  from startup_arms_timers [OF r this] k show ?thesis
    by auto
qed

section \<open>Failed acquisitions\<close>

text \<open>
  Claim C6. A failed synchronization or skew sample ends the process with exit status 1, and
  nothing runs afterwards: whatever events follow, the run stays at that exit, so the call is
  not repeated. When the initial synchronization fails, the process exits before any
  \<open>makeTimer\<close> call: no timer is armed in the state at the exit.
\<close>

theorem acquisition_failure_is_fatal:
  "(initial_sync_reply senv = None \<longrightarrow>
      (\<exists>st. startup senv = Inl (exit 1 st) \<and> (\<forall>tid. timers st tid = None)
         \<and> main senv es = Inl (exit 1 st)))
   \<and> (synchronize_reply env = None \<longrightarrow> sync_handling env st = Inl (exit 1 st))
   \<and> (get_skew_reply env = None \<longrightarrow>
        drift_handling env st = Inl (exit 1 (st\<lparr>T_skew_prev := T_skew_now st\<rparr>)))
   \<and> (fSync st \<noteq> 0 \<and> synchronize_reply env = None \<longrightarrow>
        run (Loop_pass env # es) st = Inl (exit 1 st))
   \<and> (fSync st = 0 \<and> fDrift st \<noteq> 0 \<and> get_skew_reply env = None \<longrightarrow>
        run (Loop_pass env # es) st = Inl (exit 1 (st\<lparr>T_skew_prev := T_skew_now st\<rparr>)))"
proof (intro conjI impI)
  assume "initial_sync_reply senv = None"
  then have "startup senv = Inl (exit 1 (setup_m (init_reply senv) initial_state))"
    by (simp add: startup_def)
  moreover have "\<forall>tid. timers (setup_m (init_reply senv) initial_state) tid = None"
    by (simp add: initial_state_def)
  ultimately show "\<exists>st. startup senv = Inl (exit 1 st) \<and> (\<forall>tid. timers st tid = None)
      \<and> main senv es = Inl (exit 1 st)"
    by (simp add: main_def)
next
  assume "synchronize_reply env = None"
  then show "sync_handling env st = Inl (exit 1 st)"
    by (simp add: sync_handling_def)
next
  assume "get_skew_reply env = None"
  then show "drift_handling env st = Inl (exit 1 (st\<lparr>T_skew_prev := T_skew_now st\<rparr>))"
    by (simp add: drift_handling_def)
next
  assume "fSync st \<noteq> 0 \<and> synchronize_reply env = None"
  then show "run (Loop_pass env # es) st = Inl (exit 1 st)"
    by (simp add: loop_body_def sync_handling_def)
next
  assume "fSync st = 0 \<and> fDrift st \<noteq> 0 \<and> get_skew_reply env = None"
  then show "run (Loop_pass env # es) st = Inl (exit 1 (st\<lparr>T_skew_prev := T_skew_now st\<rparr>))"
    by (simp add: loop_body_def drift_handling_def)
qed

text \<open>
  A failed initial synchronization, and a failed synchronization and skew sample in a loop
  pass, each followed by a pass whose replies would succeed.
\<close>

theorem acquisition_failure_is_fatal_witness:
  "(\<exists>st. startup (startup_with 0 None) = Inl (exit 1 st) \<and> (\<forall>tid. timers st tid = None)
       \<and> main (startup_with 0 None)
            [Loop_pass (pass_with (Some \<lparr>T_skew_n = 0, T_start_n = 5000000000\<rparr>)
                          (Some \<lparr>T_skew_n = 0, T_start_n = 5000000000\<rparr>))]
          = Inl (exit 1 st))
   \<and> sync_handling (pass_with None None) (initial_state\<lparr>fSync := 1\<rparr>)
       = Inl (exit 1 (initial_state\<lparr>fSync := 1\<rparr>))
   \<and> drift_handling (pass_with None None) (initial_state\<lparr>fDrift := 1\<rparr>)
       = Inl (exit 1 (initial_state\<lparr>fDrift := 1, T_skew_prev := 0\<rparr>))
   \<and> run [Loop_pass (pass_with None None),
           Loop_pass (pass_with (Some \<lparr>T_skew_n = 0, T_start_n = 5000000000\<rparr>)
                        (Some \<lparr>T_skew_n = 0, T_start_n = 5000000000\<rparr>))]
        (initial_state\<lparr>fSync := 1\<rparr>)
       = Inl (exit 1 (initial_state\<lparr>fSync := 1\<rparr>))
   \<and> run [Loop_pass (pass_with None None),
           Loop_pass (pass_with (Some \<lparr>T_skew_n = 0, T_start_n = 5000000000\<rparr>)
                        (Some \<lparr>T_skew_n = 0, T_start_n = 5000000000\<rparr>))]
        (initial_state\<lparr>fDrift := 1\<rparr>)
       = Inl (exit 1 (initial_state\<lparr>fDrift := 1, T_skew_prev := 0\<rparr>))"
proof -
  let ?es = "[Loop_pass (pass_with (Some \<lparr>T_skew_n = 0, T_start_n = 5000000000\<rparr>)
                           (Some \<lparr>T_skew_n = 0, T_start_n = 5000000000\<rparr>))]"
  have a: "initial_sync_reply (startup_with 0 None) = None"
    and b: "synchronize_reply (pass_with None None) = None"
    and c: "get_skew_reply (pass_with None None) = None"
    by (simp_all add: startup_with_def pass_with_def)
  have i: "fSync (initial_state\<lparr>fSync := 1\<rparr>) \<noteq> 0"
    "fSync (initial_state\<lparr>fDrift := 1\<rparr>) = 0" "fDrift (initial_state\<lparr>fDrift := 1\<rparr>) \<noteq> 0"
    "T_skew_now initial_state = 0"
    by (simp_all add: initial_state_def)
  note t1 = acquisition_failure_is_fatal
    [of "startup_with 0 None" ?es "pass_with None None" "initial_state\<lparr>fSync := 1\<rparr>"]
  note t2 = acquisition_failure_is_fatal
    [of "startup_with 0 None" ?es "pass_with None None" "initial_state\<lparr>fDrift := 1\<rparr>"]
  show ?thesis
    using t1 t2 a b c i by simp
qed

section \<open>A failed peripheral initialization\<close>

text \<open>
  Claim C7 says that a failed peripheral initialization aborts the process before any timer
  is armed. \<open>setup\<close> prints a message and returns without opening the log file, and \<open>main\<close>
  goes on: with \<open>peripheral->init()\<close> returning -1 and a successful initial synchronization
  at 5 s, all three timers are armed, and a Trigger expiration runs \<open>triggerCamera\<close>, which
  raises \<open>count\<close> to 1 while no log file is open.
\<close>

theorem failed_peripheral_init_continues:
  "observe (\<lambda>st. (log_name st, timers st cameraTimerID, timers st driftTimerID,
                   timers st syncTimerID, count st))
     (main (startup_with (- 1) (Some \<lparr>T_skew_n = 0, T_start_n = 5000000000\<rparr>))
        [Expiration cameraTimerID \<lparr>tv_sec = 5, tv_nsec = 0\<rparr>])
     = Some (None,
             Some \<lparr>it_interval = \<lparr>tv_sec = 1, tv_nsec = 0\<rparr>,
                   it_value = \<lparr>tv_sec = 5, tv_nsec = 0\<rparr>\<rparr>,
             Some \<lparr>it_interval = \<lparr>tv_sec = 0, tv_nsec = 0\<rparr>,
                   it_value = \<lparr>tv_sec = 66, tv_nsec = 500000000\<rparr>\<rparr>,
             Some \<lparr>it_interval = \<lparr>tv_sec = 0, tv_nsec = 0\<rparr>,
                   it_value = \<lparr>tv_sec = 306, tv_nsec = 500000000\<rparr>\<rparr>,
             1)"
  by code_simp

section \<open>The trigger counter\<close>

text \<open>
  Claim C8 says that \<open>count\<close> is exactly 0 immediately after every completed Drift or Sync
  handling cycle. It need not be: \<open>SIGALRM\<close> is not blocked while a cycle runs, and the cycle
  resets \<open>count\<close> (line 322) before it sets the Trigger timer again (line 324) and before it
  ends (line 335). In the run below the camera has been triggered twice when the Drift timer
  expires; the Drift cycle of the next loop pass resets \<open>count\<close>, sets the Trigger timer, and
  the Trigger timer expires before line 331. The cycle completes, \<open>fDrift\<close> is back to 0, and
  \<open>count\<close> is 1.
\<close>

theorem count_after_cycle_counterexample:
  "observe (\<lambda>st. (count st, fDrift st))
     (main (startup_with 0 (Some \<lparr>T_skew_n = 0, T_start_n = 5000000000\<rparr>))
        [Expiration cameraTimerID \<lparr>tv_sec = 5, tv_nsec = 0\<rparr>,
         Expiration cameraTimerID \<lparr>tv_sec = 6, tv_nsec = 0\<rparr>,
         Expiration driftTimerID \<lparr>tv_sec = 66, tv_nsec = 500000000\<rparr>,
         Interrupted_pass (pass_with None (Some \<lparr>T_skew_n = 61000, T_start_n = 5000000000\<rparr>))
           (at_line L331 [(cameraTimerID, \<lparr>tv_sec = 67, tv_nsec = 0\<rparr>)])])
     = Some (1, 0)"
  by code_simp

text \<open>
  Claim C8, as amended. A Drift cycle that completes has passed its reset (line 322) with
  \<open>count\<close> at 0, and ends with \<open>count\<close> equal to the number of runs of \<open>triggerCamera\<close> since
  that reset, which is at most the number of signals delivered before lines 323, 331 and
  335; a Sync cycle likewise, with its reset at line 277 and the signals before lines 279,
  283, 286 and 287. In particular \<open>count\<close> is 0 after a completed cycle during which no
  signal was delivered. A completed \<open>triggerCamera\<close> increments \<open>count\<close> by exactly 1, and
  completes whenever \<open>count\<close> is below \<open>INT_MAX\<close>. Nothing else changes \<open>count\<close>: the handler
  of an expiration runs \<open>triggerCamera\<close> exactly when the timer is armed and the value of its
  \<open>timer_t\<close> equals that of \<open>cameraTimerID\<close>, and a statement of the loop other than the two
  resets leaves \<open>count\<close> as it is.
\<close>

theorem trigger_count_changes:
  "(exec sigs env drift_lines st = Inr st1 \<longrightarrow>
      (\<exists>sr. exec sigs env drift_to_reset st = Inr sr \<and> count sr = 0
         \<and> exec sigs env drift_after_reset sr = Inr st1
         \<and> count st1 = int (exec_triggers sigs env drift_after_reset sr)
         \<and> count st1 \<le> int (length (sigs L323) + length (sigs L331) + length (sigs L335))))
   \<and> (exec sigs env sync_lines st = Inr st2 \<longrightarrow>
      (\<exists>sr. exec sigs env sync_to_reset st = Inr sr \<and> count sr = 0
         \<and> exec sigs env sync_after_reset sr = Inr st2
         \<and> count st2 = int (exec_triggers sigs env sync_after_reset sr)
         \<and> count st2 \<le> int (length (sigs L279) + length (sigs L283) + length (sigs L286)
                              + length (sigs L287))))
   \<and> drift_lines = drift_to_reset @ drift_after_reset
   \<and> sync_lines = sync_to_reset @ sync_after_reset
   \<and> (drift_handling env st = Inr st3 \<longrightarrow> count st3 = 0)
   \<and> (sync_handling env st = Inr st4 \<longrightarrow> count st4 = 0)
   \<and> (triggerCamera clock st = Inr st5 \<longrightarrow> count st5 = count st + 1)
   \<and> (count st < INT_MAX \<longrightarrow> (\<exists>st'. triggerCamera clock st = Inr st'))
   \<and> (expire tid clock st = Inr st6 \<longrightarrow>
        count st6 =
          (if timers st tid \<noteq> None \<and> kernel_id st tid = kernel_id st cameraTimerID
           then count st + 1 else count st))
   \<and> (statement env l st = Inr st7 \<longrightarrow>
        count st7 = (if l = L277 \<or> l = L322 then 0 else count st))"
proof (intro conjI impI)
  assume "exec sigs env drift_lines st = Inr st1"
  then show "\<exists>sr. exec sigs env drift_to_reset st = Inr sr \<and> count sr = 0
         \<and> exec sigs env drift_after_reset sr = Inr st1
         \<and> count st1 = int (exec_triggers sigs env drift_after_reset sr)
         \<and> count st1 \<le> int (length (sigs L323) + length (sigs L331) + length (sigs L335))"
    by (rule drift_cycle_count)
next
  assume "exec sigs env sync_lines st = Inr st2"
  then show "\<exists>sr. exec sigs env sync_to_reset st = Inr sr \<and> count sr = 0
         \<and> exec sigs env sync_after_reset sr = Inr st2
         \<and> count st2 = int (exec_triggers sigs env sync_after_reset sr)
         \<and> count st2 \<le> int (length (sigs L279) + length (sigs L283) + length (sigs L286)
                              + length (sigs L287))"
    by (rule sync_cycle_count)
next
  show "drift_lines = drift_to_reset @ drift_after_reset"
    by (simp add: drift_lines_def drift_to_reset_def drift_after_reset_def)
next
  show "sync_lines = sync_to_reset @ sync_after_reset"
    by (simp add: sync_lines_def sync_to_reset_def sync_after_reset_def)
next
  assume "drift_handling env st = Inr st3"
  then show "count st3 = 0"
    by (rule drift_handling_Inr)
next
  assume "sync_handling env st = Inr st4"
  then show "count st4 = 0"
    by (rule sync_handling_Inr)
next
  assume "triggerCamera clock st = Inr st5"
  then show "count st5 = count st + 1"
    by (rule triggerCamera_Inr)
next
  assume "count st < INT_MAX"
  then show "\<exists>st'. triggerCamera clock st = Inr st'"
    by (simp add: triggerCamera_def Let_def)
next
  assume "expire tid clock st = Inr st6"
  from expire_Inr(1) [OF this]
  show "count st6 =
          (if timers st tid \<noteq> None \<and> kernel_id st tid = kernel_id st cameraTimerID
           then count st + 1 else count st)"
    by (simp add: triggers_camera_def)
next
  assume "statement env l st = Inr st7"
  then show "count st7 = (if l = L277 \<or> l = L322 then 0 else count st)"
    by (rule statement_count)
qed

text \<open>
  The state after a start at 5 s, two Trigger firings and the expiration of the Drift timer,
  where \<open>count\<close> is 2. From it: a Drift cycle and a Sync cycle, each with one Trigger firing
  delivered after its reset, end with \<open>count\<close> at 1; the same cycles without a signal end with
  \<open>count\<close> at 0; a Trigger firing takes \<open>count\<close> to 3; line 299 leaves \<open>count\<close> at 2 and line 322
  sets it to 0.
\<close>

lemma count_example:
  "observe count
     (main (startup_with 0 (Some \<lparr>T_skew_n = 0, T_start_n = 5000000000\<rparr>))
        [Expiration cameraTimerID \<lparr>tv_sec = 5, tv_nsec = 0\<rparr>,
         Expiration cameraTimerID \<lparr>tv_sec = 6, tv_nsec = 0\<rparr>,
         Expiration driftTimerID \<lparr>tv_sec = 66, tv_nsec = 500000000\<rparr>]) = Some 2"
  "case main (startup_with 0 (Some \<lparr>T_skew_n = 0, T_start_n = 5000000000\<rparr>))
        [Expiration cameraTimerID \<lparr>tv_sec = 5, tv_nsec = 0\<rparr>,
         Expiration cameraTimerID \<lparr>tv_sec = 6, tv_nsec = 0\<rparr>,
         Expiration driftTimerID \<lparr>tv_sec = 66, tv_nsec = 500000000\<rparr>] of
     Inl h \<Rightarrow> False
   | Inr st \<Rightarrow>
       observe count
         (exec (\<lambda>l. if l = L331 \<or> l = L283 then [(cameraTimerID, \<lparr>tv_sec = 67, tv_nsec = 0\<rparr>)]
                     else [])
            (pass_with (Some \<lparr>T_skew_n = 7, T_start_n = 400000000000\<rparr>)
               (Some \<lparr>T_skew_n = 61000, T_start_n = 5000000000\<rparr>)) drift_lines st) = Some 1
       \<and> observe count
         (exec (\<lambda>l. if l = L331 \<or> l = L283 then [(cameraTimerID, \<lparr>tv_sec = 67, tv_nsec = 0\<rparr>)]
                     else [])
            (pass_with (Some \<lparr>T_skew_n = 7, T_start_n = 400000000000\<rparr>)
               (Some \<lparr>T_skew_n = 61000, T_start_n = 5000000000\<rparr>)) sync_lines st) = Some 1
       \<and> observe count
         (drift_handling
            (pass_with (Some \<lparr>T_skew_n = 7, T_start_n = 400000000000\<rparr>)
               (Some \<lparr>T_skew_n = 61000, T_start_n = 5000000000\<rparr>)) st) = Some 0
       \<and> observe count
         (sync_handling
            (pass_with (Some \<lparr>T_skew_n = 7, T_start_n = 400000000000\<rparr>)
               (Some \<lparr>T_skew_n = 61000, T_start_n = 5000000000\<rparr>)) st) = Some 0
       \<and> observe count (triggerCamera \<lparr>tv_sec = 67, tv_nsec = 0\<rparr> st) = Some 3
       \<and> observe count (expire cameraTimerID \<lparr>tv_sec = 67, tv_nsec = 0\<rparr> st) = Some 3"
  by code_simp+

theorem trigger_count_changes_witness:
  "\<exists>st st1 st2 st3 st4 st5 st6 st7.
     main (startup_with 0 (Some \<lparr>T_skew_n = 0, T_start_n = 5000000000\<rparr>))
        [Expiration cameraTimerID \<lparr>tv_sec = 5, tv_nsec = 0\<rparr>,
         Expiration cameraTimerID \<lparr>tv_sec = 6, tv_nsec = 0\<rparr>,
         Expiration driftTimerID \<lparr>tv_sec = 66, tv_nsec = 500000000\<rparr>] = Inr st
     \<and> count st = 2
     \<and> exec (\<lambda>l. if l = L331 \<or> l = L283 then [(cameraTimerID, \<lparr>tv_sec = 67, tv_nsec = 0\<rparr>)]
                 else [])
          (pass_with (Some \<lparr>T_skew_n = 7, T_start_n = 400000000000\<rparr>)
             (Some \<lparr>T_skew_n = 61000, T_start_n = 5000000000\<rparr>)) drift_lines st = Inr st1
     \<and> count st1 = 1
     \<and> exec (\<lambda>l. if l = L331 \<or> l = L283 then [(cameraTimerID, \<lparr>tv_sec = 67, tv_nsec = 0\<rparr>)]
                 else [])
          (pass_with (Some \<lparr>T_skew_n = 7, T_start_n = 400000000000\<rparr>)
             (Some \<lparr>T_skew_n = 61000, T_start_n = 5000000000\<rparr>)) sync_lines st = Inr st2
     \<and> count st2 = 1
     \<and> drift_handling (pass_with (Some \<lparr>T_skew_n = 7, T_start_n = 400000000000\<rparr>)
                          (Some \<lparr>T_skew_n = 61000, T_start_n = 5000000000\<rparr>)) st = Inr st3
     \<and> count st3 = 0
     \<and> sync_handling (pass_with (Some \<lparr>T_skew_n = 7, T_start_n = 400000000000\<rparr>)
                         (Some \<lparr>T_skew_n = 61000, T_start_n = 5000000000\<rparr>)) st = Inr st4
     \<and> count st4 = 0
     \<and> triggerCamera \<lparr>tv_sec = 67, tv_nsec = 0\<rparr> st = Inr st5
     \<and> count st5 = 3
     \<and> expire cameraTimerID \<lparr>tv_sec = 67, tv_nsec = 0\<rparr> st = Inr st6
     \<and> count st6 = 3
     \<and> statement (pass_with (Some \<lparr>T_skew_n = 7, T_start_n = 400000000000\<rparr>)
                     (Some \<lparr>T_skew_n = 61000, T_start_n = 5000000000\<rparr>)) L322 st = Inr st7
     \<and> count st7 = 0"
proof -
  let ?env = "pass_with (Some \<lparr>T_skew_n = 7, T_start_n = 400000000000\<rparr>)
                (Some \<lparr>T_skew_n = 61000, T_start_n = 5000000000\<rparr>)"
  let ?clock = "\<lparr>tv_sec = 67, tv_nsec = 0\<rparr>"
  let ?sigs = "\<lambda>l. if l = L331 \<or> l = L283 then [(cameraTimerID, ?clock)] else []"
  from count_example(1) obtain st where
    m: "main (startup_with 0 (Some \<lparr>T_skew_n = 0, T_start_n = 5000000000\<rparr>))
        [Expiration cameraTimerID \<lparr>tv_sec = 5, tv_nsec = 0\<rparr>,
         Expiration cameraTimerID \<lparr>tv_sec = 6, tv_nsec = 0\<rparr>,
         Expiration driftTimerID \<lparr>tv_sec = 66, tv_nsec = 500000000\<rparr>] = Inr st"
    and c: "count st = 2"
    by (rule observe_SomeD)
  from count_example(2) have
    o: "observe count (exec ?sigs ?env drift_lines st) = Some 1"
      "observe count (exec ?sigs ?env sync_lines st) = Some 1"
      "observe count (drift_handling ?env st) = Some 0"
      "observe count (sync_handling ?env st) = Some 0"
      "observe count (triggerCamera ?clock st) = Some 3"
      "observe count (expire cameraTimerID ?clock st) = Some 3"
    unfolding m by simp_all
  from o(1) obtain st1 where h1: "exec ?sigs ?env drift_lines st = Inr st1"
    by (rule observe_SomeD)
  from o(2) obtain st2 where h2: "exec ?sigs ?env sync_lines st = Inr st2"
    by (rule observe_SomeD)
  from o(3) obtain st3 where h3: "drift_handling ?env st = Inr st3"
    by (rule observe_SomeD)
  from o(4) obtain st4 where h4: "sync_handling ?env st = Inr st4"
    by (rule observe_SomeD)
  from o(5) obtain st5 where h5: "triggerCamera ?clock st = Inr st5"
    by (rule observe_SomeD)
  from o(6) obtain st6 where h6: "expire cameraTimerID ?clock st = Inr st6" and t: "count st6 = 3"
    by (rule observe_SomeD)
  have h7: "statement ?env L322 st = Inr (st\<lparr>count := 0\<rparr>)"
    by simp
  note w = trigger_count_changes [where sigs = ?sigs and env = ?env and st = st
      and clock = ?clock and tid = cameraTimerID and l = L322
      and ?st1.0 = st1 and ?st2.0 = st2 and ?st3.0 = st3 and ?st4.0 = st4 and ?st5.0 = st5
      and ?st6.0 = st6 and ?st7.0 = "st\<lparr>count := 0\<rparr>"]
  from w h1 h2 h3 h4 h5 c have "count st1 \<le> 1 \<and> count st2 \<le> 1 \<and> count st3 = 0
      \<and> count st4 = 0 \<and> count st5 = 3"
    by auto
  moreover have "count st1 = 1" and "count st2 = 1"
    using o(1,2) h1 h2 by (simp_all add: observe_def)
  ultimately show ?thesis
    using m c h1 h2 h3 h4 h5 h6 t h7 by auto
qed

text \<open>
  The handler compares the values of the \<open>timer_t\<close> globals. When \<open>timer_create\<close> fails for the
  Trigger timer, \<open>cameraTimerID\<close> keeps the value 0 that the kernel then gives to the Drift
  timer, and the expiration of the Drift timer runs \<open>triggerCamera\<close> instead of raising
  \<open>fDrift\<close>.
\<close>

lemma unmade_trigger_timer_example:
  "observe (\<lambda>st. (count st, fDrift st, kernel_id st cameraTimerID, kernel_id st driftTimerID))
     (main \<lparr>init_reply = 0, initial_sync_reply = Some \<lparr>T_skew_n = 0, T_start_n = 5000000000\<rparr>,
            trigger_sys = all_ok\<lparr>timer_create_ok := False\<rparr>, drift_sys = all_ok,
            sync_sys = all_ok\<lparr>new_timer_id := 1\<rparr>\<rparr>
        [Expiration driftTimerID \<lparr>tv_sec = 66, tv_nsec = 500000000\<rparr>])
     = Some (1, 0, 0, 0)"
  by code_simp

section \<open>A Drift cycle with equal skews\<close>

text \<open>
  Claim C9 says that a Drift cycle whose fresh skew equals the previous one leaves
  \<open>server_sec\<close> as it was, whatever its value. It does not: the period is computed anew from
  the delta alone. In the run below a Drift cycle has set \<open>server_sec\<close> to 999_999_000 and a
  Sync cycle has recorded the skew 7; the next Drift cycle samples 7 again and sets
  \<open>server_sec\<close> to 1_000_000_000.
\<close>

theorem equal_skews_counterexample:
  "observe (\<lambda>st. (server_sec st, T_skew_now st))
     (main (startup_with 0 (Some \<lparr>T_skew_n = 0, T_start_n = 5000000000\<rparr>))
        [Expiration driftTimerID \<lparr>tv_sec = 66, tv_nsec = 500000000\<rparr>,
         Loop_pass (pass_with None (Some \<lparr>T_skew_n = 61000, T_start_n = 5000000000\<rparr>)),
         Expiration syncTimerID \<lparr>tv_sec = 306, tv_nsec = 499698500\<rparr>,
         Loop_pass (pass_with (Some \<lparr>T_skew_n = 7, T_start_n = 400000000000\<rparr>) None),
         Expiration driftTimerID \<lparr>tv_sec = 461, tv_nsec = 499938500\<rparr>])
     = Some (999999000, 7)
   \<and> observe (\<lambda>st. (server_sec st, T_skew_prev st, T_skew_now st))
     (main (startup_with 0 (Some \<lparr>T_skew_n = 0, T_start_n = 5000000000\<rparr>))
        [Expiration driftTimerID \<lparr>tv_sec = 66, tv_nsec = 500000000\<rparr>,
         Loop_pass (pass_with None (Some \<lparr>T_skew_n = 61000, T_start_n = 5000000000\<rparr>)),
         Expiration syncTimerID \<lparr>tv_sec = 306, tv_nsec = 499698500\<rparr>,
         Loop_pass (pass_with (Some \<lparr>T_skew_n = 7, T_start_n = 400000000000\<rparr>) None),
         Expiration driftTimerID \<lparr>tv_sec = 461, tv_nsec = 499938500\<rparr>,
         Loop_pass (pass_with None (Some \<lparr>T_skew_n = 7, T_start_n = 400000000000\<rparr>))])
     = Some (1000000000, 7, 7)"
  by code_simp

text \<open>
  Claim C9, as amended. Every completed Drift handling cycle whose fresh skew equals the
  previous skew sets \<open>server_sec\<close> to the nominal 1_000_000_000, whatever it was before; so
  it leaves \<open>server_sec\<close> unchanged exactly when it was nominal before the cycle.
\<close>

theorem equal_skews_give_nominal_period:
  assumes "drift_handling env st = Inr st'" and "get_skew_reply env = Some ti"
    and "T_skew_n ti = T_skew_now st"
  shows "server_sec st' = 1000000000
     \<and> T_skew_now st' = T_skew_prev st'
     \<and> (server_sec st' = server_sec st \<longleftrightarrow> server_sec st = 1000000000)"
  using assms(1)
proof (rule drift_handling_Inr)
  fix ti' sec
  assume r: "get_skew_reply env = Some ti'"
    and s: "drift_server_sec (T_skew_n ti') (T_skew_now st) = Some sec"
    and f: "server_sec st' = sec" "T_skew_prev st' = T_skew_now st" "T_skew_now st' = T_skew_n ti'"
  from r assms(2) have "ti' = ti"
    by simp
  with s assms(3) have "sec = 1000000000"
    by (simp add: drift_server_sec_same)
  with f assms(3) \<open>ti' = ti\<close> show ?thesis
    by auto
qed

text \<open>
  After a start with skew 0, a Drift cycle that samples 0 completes and keeps the nominal
  period.
\<close>

theorem equal_skews_give_nominal_period_witness:
  "\<exists>st0 st'.
     startup (startup_with 0 (Some \<lparr>T_skew_n = 0, T_start_n = 5000000000\<rparr>)) = Inr st0
     \<and> drift_handling (pass_with None (Some \<lparr>T_skew_n = 0, T_start_n = 5000000000\<rparr>)) st0
         = Inr st'
     \<and> server_sec st' = 1000000000 \<and> server_sec st' = server_sec st0"
proof -
  let ?env = "pass_with None (Some \<lparr>T_skew_n = 0, T_start_n = 5000000000\<rparr>)"
  obtain st0 where s: "startup (startup_with 0 (Some \<lparr>T_skew_n = 0, T_start_n = 5000000000\<rparr>))
      = Inr st0"
    and f: "T_trig_n st0 = 5000000000" "T_sync_n st0 = 5000000000" "T_skew_now st0 = 0"
      "server_sec st0 = 1000000000"
    by (rule example_started)
  have r: "get_skew_reply ?env = Some \<lparr>T_skew_n = 0, T_start_n = 5000000000\<rparr>"
    by (simp add: pass_with_def)
  have "\<exists>st'. drift_handling ?env st0 = Inr st'"
    by (rule drift_handling_completes [OF r]) (simp_all add: f)
  then obtain st' where c: "drift_handling ?env st0 = Inr st'"
    by blast
  have e: "T_skew_n \<lparr>T_skew_n = 0, T_start_n = 5000000000\<rparr> = T_skew_now st0"
    by (simp add: f)
  from equal_skews_give_nominal_period [OF c r e] s c show ?thesis
    by (auto simp: f)
qed

section \<open>How often Drift handling runs\<close>

text \<open>
  Claim C10 says that Drift handling recurs about every 61 remote seconds between two
  synchronizations, the Drift timer being re-armed after it fires. It is not: the Drift
  timer is armed with interval zero and the Drift branch of the loop never sets it again.
  In the run below the Drift timer expires and its cycle runs; a second expiration 61 s
  later does not take place, the timer being disarmed, and the loop pass that follows finds
  no work: one Drift cycle has run, and the Drift timer is still not armed.
\<close>

theorem drift_recurrence_counterexample:
  "observe (\<lambda>st. (timers st driftTimerID, fDrift st))
     (main (startup_with 0 (Some \<lparr>T_skew_n = 0, T_start_n = 5000000000\<rparr>))
        [Expiration driftTimerID \<lparr>tv_sec = 66, tv_nsec = 500000000\<rparr>,
         Loop_pass (pass_with None (Some \<lparr>T_skew_n = 61000, T_start_n = 5000000000\<rparr>)),
         Expiration driftTimerID \<lparr>tv_sec = 127, tv_nsec = 500000000\<rparr>,
         Loop_pass (pass_with None (Some \<lparr>T_skew_n = 122000, T_start_n = 5000000000\<rparr>))])
     = Some (None, 0)
   \<and> (case startup (startup_with 0 (Some \<lparr>T_skew_n = 0, T_start_n = 5000000000\<rparr>)) of
        Inl h \<Rightarrow> 0
      | Inr st0 \<Rightarrow>
          drift_cycles
            [Expiration driftTimerID \<lparr>tv_sec = 66, tv_nsec = 500000000\<rparr>,
             Loop_pass (pass_with None (Some \<lparr>T_skew_n = 61000, T_start_n = 5000000000\<rparr>)),
             Expiration driftTimerID \<lparr>tv_sec = 127, tv_nsec = 500000000\<rparr>,
             Loop_pass (pass_with None (Some \<lparr>T_skew_n = 122000, T_start_n = 5000000000\<rparr>))]
            st0)
     = 1"
  by code_simp

text \<open>
  Claim C10, as amended. Drift handling is not periodic: each Drift cycle uses up one arming
  of the Drift timer, and only startup and the Sync cycle arm it. For every state \<open>st\<close> that a
  run has reached, and with signals delivered at any statement of a loop pass:

  \<^item> the Drift timer, if armed, is one-shot, and its expiration disarms it;
  \<^item> an event that runs no Sync cycle (an expiration, or a loop pass that finds \<open>fSync\<close> at 0)
    leaves the setting of the Drift timer as it is or disarms the timer;
  \<^item> in every continuation \<open>es2\<close> of the run, the number of Drift cycles entered is at most
    the number of Sync cycles entered plus what is pending in \<open>st\<close>: 1 for a raised \<open>fDrift\<close>
    and 1 for an armed Drift timer; in a whole run from startup it is at most the number of
    Sync cycles plus 1;
  \<^item> when the Drift timer is armed, the value of its \<open>timer_t\<close> differs from those of the
    other two and \<open>fSync\<close> is 0, its expiration followed by a loop pass does enter a Drift
    cycle.
\<close>

theorem drift_cycles_per_arming:
  assumes "main senv es1 = Inr st"
  shows "drift_one_shot st
     \<and> (expire driftTimerID clock st = Inr st1 \<longrightarrow> timers st1 driftTimerID = None)
     \<and> (step e st = Inr st2 \<and> sync_entered e st = 0 \<longrightarrow>
          timers st2 driftTimerID = None \<or> timers st2 driftTimerID = timers st driftTimerID)
     \<and> drift_cycles es2 st \<le> pending_drift st + sync_cycles es2 st
     \<and> (case startup senv of
          Inl h \<Rightarrow> True
        | Inr st0 \<Rightarrow> drift_cycles es3 st0 \<le> 1 + sync_cycles es3 st0)
     \<and> (timers st driftTimerID \<noteq> None
          \<and> kernel_id st driftTimerID \<noteq> kernel_id st cameraTimerID
          \<and> kernel_id st driftTimerID \<noteq> kernel_id st syncTimerID
          \<and> fSync st = 0 \<longrightarrow>
          1 \<le> drift_cycles (Expiration driftTimerID clock # Loop_pass env # es) st)"
proof -
  from assms obtain st0 where s: "startup senv = Inr st0" and r: "run es1 st0 = Inr st"
    by (auto simp: main_def split: sum.splits)
  have o0: "drift_one_shot st0" and p0: "pending_drift st0 \<le> 1"
    using startup_drift_one_shot [OF s] by simp_all
  have o: "drift_one_shot st"
    using r o0 by (rule run_drift_one_shot)
  have a: "timers st1 driftTimerID = None" if "expire driftTimerID clock st = Inr st1"
    using o unfolding expire_Inr(4) [OF that] drift_one_shot_def
    by (auto split: option.splits)
  have b: "timers st2 driftTimerID = None \<or> timers st2 driftTimerID = timers st driftTimerID"
    if "step e st = Inr st2 \<and> sync_entered e st = 0"
  proof -
    from that have "step e st = Inr st2" and "sync_entered e st = 0"
      by simp_all
    then show ?thesis
      using o by (rule step_arms_drift)
  qed
  have c: "drift_cycles es2 st \<le> pending_drift st + sync_cycles es2 st"
    using o by (rule drift_cycles_bound)
  have "drift_cycles es3 st0 \<le> pending_drift st0 + sync_cycles es3 st0"
    using o0 by (rule drift_cycles_bound)
  with p0 have d: "drift_cycles es3 st0 \<le> 1 + sync_cycles es3 st0"
    by simp
  have e: "1 \<le> drift_cycles (Expiration driftTimerID clock # Loop_pass env # es) st"
    if "timers st driftTimerID \<noteq> None
          \<and> kernel_id st driftTimerID \<noteq> kernel_id st cameraTimerID
          \<and> kernel_id st driftTimerID \<noteq> kernel_id st syncTimerID
          \<and> fSync st = 0"
    using that by (intro drift_expiration_starts_cycle) simp_all
  from o a b c d e s show ?thesis
    by simp
qed

text \<open>
  The state after a start at 5 s, in which the Drift timer is armed and nothing else is
  pending. The four events of the run above contain no Sync cycle, so exactly one Drift cycle
  runs; and the expiration of the Drift timer disarms it.
\<close>

lemma drift_example:
  "observe (\<lambda>st. (timers st driftTimerID \<noteq> None, fDrift st, fSync st, kernel_id st cameraTimerID,
                   kernel_id st driftTimerID, kernel_id st syncTimerID))
     (main (startup_with 0 (Some \<lparr>T_skew_n = 0, T_start_n = 5000000000\<rparr>)) [])
     = Some (True, 0, 0, 0, 1, 2)"
  "case main (startup_with 0 (Some \<lparr>T_skew_n = 0, T_start_n = 5000000000\<rparr>)) [] of
     Inl h \<Rightarrow> False
   | Inr st \<Rightarrow>
       sync_cycles
         [Expiration driftTimerID \<lparr>tv_sec = 66, tv_nsec = 500000000\<rparr>,
          Loop_pass (pass_with None (Some \<lparr>T_skew_n = 61000, T_start_n = 5000000000\<rparr>)),
          Expiration driftTimerID \<lparr>tv_sec = 127, tv_nsec = 500000000\<rparr>,
          Loop_pass (pass_with None (Some \<lparr>T_skew_n = 122000, T_start_n = 5000000000\<rparr>))] st = 0
       \<and> observe fDrift (expire driftTimerID \<lparr>tv_sec = 66, tv_nsec = 500000000\<rparr> st) = Some 1"
  by code_simp+

theorem drift_cycles_per_arming_witness:
  "\<exists>st st1.
     main (startup_with 0 (Some \<lparr>T_skew_n = 0, T_start_n = 5000000000\<rparr>)) [] = Inr st
     \<and> timers st driftTimerID \<noteq> None
     \<and> drift_cycles
          [Expiration driftTimerID \<lparr>tv_sec = 66, tv_nsec = 500000000\<rparr>,
           Loop_pass (pass_with None (Some \<lparr>T_skew_n = 61000, T_start_n = 5000000000\<rparr>)),
           Expiration driftTimerID \<lparr>tv_sec = 127, tv_nsec = 500000000\<rparr>,
           Loop_pass (pass_with None (Some \<lparr>T_skew_n = 122000, T_start_n = 5000000000\<rparr>))]
          st = 1
     \<and> step (Expiration driftTimerID \<lparr>tv_sec = 66, tv_nsec = 500000000\<rparr>) st = Inr st1
     \<and> timers st1 driftTimerID = None"
proof -
  let ?senv = "startup_with 0 (Some \<lparr>T_skew_n = 0, T_start_n = 5000000000\<rparr>)"
  let ?clock = "\<lparr>tv_sec = 66, tv_nsec = 500000000\<rparr>"
  let ?env = "pass_with None (Some \<lparr>T_skew_n = 61000, T_start_n = 5000000000\<rparr>)"
  let ?es = "[Expiration driftTimerID \<lparr>tv_sec = 127, tv_nsec = 500000000\<rparr>,
           Loop_pass (pass_with None (Some \<lparr>T_skew_n = 122000, T_start_n = 5000000000\<rparr>))]"
  from drift_example(1) obtain st where m: "main ?senv [] = Inr st"
    and f: "(timers st driftTimerID \<noteq> None, fDrift st, fSync st, kernel_id st cameraTimerID,
              kernel_id st driftTimerID, kernel_id st syncTimerID) = (True, 0, 0, 0, 1, 2)"
    by (rule observe_SomeD)
  from drift_example(2) have
    y: "sync_cycles (Expiration driftTimerID ?clock # Loop_pass ?env # ?es) st = 0"
    and z: "observe fDrift (expire driftTimerID ?clock st) = Some 1"
    unfolding m by simp_all
  from z obtain st1 where x: "expire driftTimerID ?clock st = Inr st1"
    by (rule observe_SomeD)
  have p: "pending_drift st = 1"
    using f by (simp add: pending_drift_def)
  note w = drift_cycles_per_arming [OF m, where clock = ?clock and env = ?env and es = ?es
      and ?es2.0 = "Expiration driftTimerID ?clock # Loop_pass ?env # ?es"
      and e = "Expiration driftTimerID ?clock" and ?st1.0 = st1 and ?st2.0 = st1]
  from w f have "1 \<le> drift_cycles (Expiration driftTimerID ?clock # Loop_pass ?env # ?es) st"
    by simp
  moreover from w have
    "drift_cycles (Expiration driftTimerID ?clock # Loop_pass ?env # ?es) st
       \<le> pending_drift st + sync_cycles (Expiration driftTimerID ?clock # Loop_pass ?env # ?es) st"
    by blast
  ultimately have "drift_cycles (Expiration driftTimerID ?clock # Loop_pass ?env # ?es) st = 1"
    unfolding p y by simp
  moreover from w x have "timers st1 driftTimerID = None"
    by blast
  ultimately show ?thesis
    using m f x by auto
qed
end
